theory Spec2Isabelle
  imports Main "HOL-Library.Sublist" "HOL-Library.AList" "HOL-Library.List_Lexorder" "HOL-Library.Char_ord"
begin


section \<open>Parsed JSON documents\<close>

text \<open>
  What \<^verbatim>\<open>json.load\<close> returns: \<^verbatim>\<open>None\<close>, a bool, an int, a float, a str, a list or a
  dict. A dict keeps its items in insertion order, so it is an association list; a float
  is kept as mantissa and binary exponent (no function below computes with numbers).
\<close>

datatype json =
    JNull
  | JBool bool
  | JInt int
  | JFloat int int
  | JStr string
  | JArr "json list"
  | JObj "(string \<times> json) list"

text \<open>\<^verbatim>\<open>sub in s\<close> for strings.\<close>

fun contains :: "string \<Rightarrow> string \<Rightarrow> bool" where
  "contains [] sub = (sub = [])"
| "contains (c # cs) sub = (prefix sub (c # cs) \<or> contains cs sub)"

text \<open>
  \<^verbatim>\<open>json.load\<close> never returns a dict with a key twice; a lookup reads the first item of
  a key, \<^verbatim>\<open>d[k] = v\<close> replaces the value in place or appends the item (\<^const>\<open>AList.update\<close>)
  and \<^verbatim>\<open>del d[k]\<close> removes it (\<^const>\<open>AList.delete\<close>).
\<close>

text \<open>Python's truth value of a parsed document, as \<^verbatim>\<open>if x:\<close> reads it.\<close>

fun truthy :: "json \<Rightarrow> bool" where
  "truthy JNull = False"
| "truthy (JBool b) = b"
| "truthy (JInt n) = (n \<noteq> 0)"
| "truthy (JFloat m e) = (m \<noteq> 0)"
| "truthy (JStr s) = (s \<noteq> [])"
| "truthy (JArr xs) = (xs \<noteq> [])"
| "truthy (JObj kvs) = (kvs \<noteq> [])"

text \<open>
  \<^verbatim>\<open>x.get(k, default)\<close>: only a dict has the method; on any other value Python raises
  AttributeError, which is \<^const>\<open>None\<close> here.
\<close>

fun dict_get :: "json \<Rightarrow> string \<Rightarrow> json \<Rightarrow> json option" where
  "dict_get (JObj kvs) k dflt = Some (case map_of kvs k of Some v \<Rightarrow> v | None \<Rightarrow> dflt)"
| "dict_get _ k dflt = None"

text \<open>
  \<^verbatim>\<open>for x in v\<close>: a list gives its items, a dict its keys, a str its characters; any
  other value is not iterable (TypeError, \<^const>\<open>None\<close>).
\<close>

fun iterate :: "json \<Rightarrow> json list option" where
  "iterate (JArr xs) = Some xs"
| "iterate (JObj kvs) = Some (map (\<lambda>kv. JStr (fst kv)) kvs)"
| "iterate (JStr s) = Some (map (\<lambda>c. JStr [c]) s)"
| "iterate _ = None"

text \<open>\<^verbatim>\<open>k in v\<close> for a str \<^verbatim>\<open>k\<close>: a key of a dict, an item of a list, a substring of a str.\<close>

fun py_in :: "string \<Rightarrow> json \<Rightarrow> bool option" where
  "py_in k (JObj kvs) = Some (k \<in> fst ` set kvs)"
| "py_in k (JArr xs) = Some (JStr k \<in> set xs)"
| "py_in k (JStr s) = Some (contains s k)"
| "py_in k _ = None"

section \<open>Strings\<close>

text \<open>\<^verbatim>\<open>str.lower\<close> on the ASCII letters; every other character is left as it is.\<close>

definition lower_char :: "char \<Rightarrow> char" where
  "lower_char c =
     (let n = (of_char c :: nat)
      in if 65 \<le> n \<and> n \<le> 90 then char_of (n + 32) else c)"

definition lower :: "string \<Rightarrow> string" where
  "lower s = map lower_char s"

text \<open>\<^verbatim>\<open>s.endswith(e)\<close> and \<^verbatim>\<open>s.startswith(e)\<close>.\<close>

definition endswith :: "string \<Rightarrow> string \<Rightarrow> bool" where
  "endswith s e = (length e \<le> length s \<and> drop (length s - length e) s = e)"

definition startswith :: "string \<Rightarrow> string \<Rightarrow> bool" where
  "startswith s e = (take (length e) s = e)"

text \<open>
  \<^verbatim>\<open>s.split(sep)\<close> for a separator that is not empty (the separators of the source are
  the constants \<^verbatim>\<open>"/"\<close> and \<^verbatim>\<open>"://"\<close>): the pieces between the occurrences of \<^verbatim>\<open>sep\<close>,
  found from the left. \<^verbatim>\<open>skip\<close> counts the characters of a separator still to pass,
  \<^verbatim>\<open>cur\<close> is the piece being read, reversed.
\<close>

fun split_from :: "string \<Rightarrow> nat \<Rightarrow> string \<Rightarrow> string \<Rightarrow> string list" where
  "split_from sep skip cur [] = [rev cur]"
| "split_from sep (Suc skip) cur (c # cs) = split_from sep skip cur cs"
| "split_from sep 0 cur (c # cs) =
     (if sep \<noteq> [] \<and> prefix sep (c # cs)
      then rev cur # split_from sep (length sep - 1) [] cs
      else split_from sep 0 (c # cur) cs)"

definition split :: "string \<Rightarrow> string \<Rightarrow> string list" where
  "split s sep = split_from sep 0 [] s"

text \<open>
  \<^verbatim>\<open>s.replace(old, new)\<close>: every occurrence of \<^verbatim>\<open>old\<close>, found from the left, becomes
  \<^verbatim>\<open>new\<close>. With an empty \<^verbatim>\<open>old\<close> Python puts \<^verbatim>\<open>new\<close> before every character and at the
  end.
\<close>

fun replace_from :: "string \<Rightarrow> string \<Rightarrow> nat \<Rightarrow> string \<Rightarrow> string" where
  "replace_from old new skip [] = []"
| "replace_from old new (Suc skip) (c # cs) = replace_from old new skip cs"
| "replace_from old new 0 (c # cs) =
     (if prefix old (c # cs)
      then new @ replace_from old new (length old - 1) cs
      else c # replace_from old new 0 cs)"

definition replace :: "string \<Rightarrow> string \<Rightarrow> string \<Rightarrow> string" where
  "replace s old new =
     (if old = [] then new @ concat (map (\<lambda>c. c # new) s) else replace_from old new 0 s)"

text \<open>\<^verbatim>\<open>sep.join(parts)\<close>.\<close>

fun join_with :: "string \<Rightarrow> string list \<Rightarrow> string" where
  "join_with sep [] = []"
| "join_with sep [p] = p"
| "join_with sep (p # q # ps) = p @ sep @ join_with sep (q # ps)"

section \<open>Paths (os.path on a POSIX system)\<close>

text \<open>
  The scripts call \<^verbatim>\<open>os.path\<close>; the functions below follow CPython's \<^verbatim>\<open>posixpath\<close>,
  where the separator is \<^verbatim>\<open>/\<close>.
\<close>

text \<open>\<^verbatim>\<open>os.path.join(a, *p)\<close>: a part that starts with \<^verbatim>\<open>/\<close> discards what came before.\<close>

fun path_join :: "string \<Rightarrow> string list \<Rightarrow> string" where
  "path_join path [] = path"
| "path_join path (b # bs) =
     (if startswith b ''/'' then path_join b bs
      else if path = [] \<or> endswith path ''/'' then path_join (path @ b) bs
      else path_join (path @ ''/'' @ b) bs)"

text \<open>
  The loop of \<^verbatim>\<open>normpath\<close> over the components: \<^verbatim>\<open>new_comps\<close> is kept reversed, so
  that its last element is the head. \<^verbatim>\<open>rooted\<close> is \<^verbatim>\<open>initial_slashes\<close> read as a bool.
\<close>

fun norm_comps :: "bool \<Rightarrow> string list \<Rightarrow> string list \<Rightarrow> string list" where
  "norm_comps rooted new_comps [] = rev new_comps"
| "norm_comps rooted new_comps (c # comps) =
     (if c = [] \<or> c = ''.'' then norm_comps rooted new_comps comps
      else if c \<noteq> ''..'' \<or> (\<not> rooted \<and> new_comps = [])
                \<or> (new_comps \<noteq> [] \<and> hd new_comps = ''..'')
      then norm_comps rooted (c # new_comps) comps
      else if new_comps \<noteq> [] then norm_comps rooted (tl new_comps) comps
      else norm_comps rooted new_comps comps)"

text \<open>
  \<^verbatim>\<open>initial_slashes\<close>: 0 for a relative path, 2 for a path that starts with exactly two
  slashes, 1 for any other absolute path.
\<close>

definition initial_slashes :: "string \<Rightarrow> nat" where
  "initial_slashes path =
     (if \<not> startswith path ''/'' then 0
      else if startswith path ''//'' \<and> \<not> startswith path ''///'' then 2
      else 1)"

definition normpath :: "string \<Rightarrow> string" where
  "normpath path =
     (if path = [] then ''.''
      else
        let n = initial_slashes path;
            comps = norm_comps (n \<noteq> 0) [] (split path ''/'');
            p = replicate n (CHR ''/'') @ join_with ''/'' comps
        in if p = [] then ''.'' else p)"

text \<open>
  \<^verbatim>\<open>os.path.basename\<close> and \<^verbatim>\<open>os.path.dirname\<close>: the path is cut after its last
  slash; the head loses its trailing slashes unless it consists of slashes only.
\<close>

definition after_last_slash :: "string \<Rightarrow> string" where
  "after_last_slash p = rev (takeWhile (\<lambda>c. c \<noteq> CHR ''/'') (rev p))"

definition upto_last_slash :: "string \<Rightarrow> string" where
  "upto_last_slash p = rev (dropWhile (\<lambda>c. c \<noteq> CHR ''/'') (rev p))"

definition basename :: "string \<Rightarrow> string" where
  "basename p = after_last_slash p"

definition dirname :: "string \<Rightarrow> string" where
  "dirname p =
     (let head = upto_last_slash p
      in if head \<noteq> [] \<and> \<not> list_all (\<lambda>c. c = CHR ''/'') head
         then rev (dropWhile (\<lambda>c. c = CHR ''/'') (rev head))
         else head)"

section \<open>The path sanitizer (1model.new.py, safe_path_join)\<close>

text \<open>The class \<^verbatim>\<open>[\\:*?"<>|]\<close> of \<^verbatim>\<open>invalid_chars\<close>.\<close>

definition invalid_chars :: "char set" where
  "invalid_chars = set [CHR 0x5C, CHR '':'', CHR ''*'', CHR ''?'', CHR 0x22, CHR ''<'', CHR ''>'', CHR ''|'']"

text \<open>\<^verbatim>\<open>re.sub(invalid_chars, "_", p)\<close>: every character of the class becomes an underscore.\<close>

definition sub_invalid :: "string \<Rightarrow> string" where
  "sub_invalid p = map (\<lambda>c. if c \<in> invalid_chars then CHR ''_'' else c) p"

text \<open>The reference after the scheme is cut off: \<^verbatim>\<open>rel_path.split("://")[-1]\<close>.\<close>

definition strip_scheme :: "string \<Rightarrow> string" where
  "strip_scheme rel_path =
     (if contains rel_path ''://'' then last (split rel_path ''://'') else rel_path)"

definition clean_parts :: "string \<Rightarrow> string list" where
  "clean_parts rel_path =
     map sub_invalid
       (filter (\<lambda>p. p \<noteq> [])
          (split (replace (strip_scheme rel_path) [CHR 0x5C] ''/'') ''/''))"

definition safe_path_join :: "string \<Rightarrow> string \<Rightarrow> string" where
  "safe_path_join base rel_path = normpath (path_join base (clean_parts rel_path))"

section \<open>The generic asset extractor (1model.new.py, extract_assets)\<close>

definition exts :: "string list" where
  "exts = [''.moc3'', ''.model3.json'', ''.json'', ''.png'', ''.wav'', ''.mp3'']"

text \<open>The test of \<^verbatim>\<open>_walk\<close> on a str: \<^verbatim>\<open>any(obj.lower().endswith(e) for e in exts)\<close>.\<close>

definition is_asset :: "string \<Rightarrow> bool" where
  "is_asset s = list_ex (\<lambda>e. endswith (lower s) e) exts"

text \<open>
  \<^verbatim>\<open>_walk\<close> adds to the set \<^verbatim>\<open>found\<close> of the enclosing call; here the set is passed in
  and returned. A dict is walked through its values only, a list through its items, and
  every other value is passed over.
\<close>

fun walk :: "json \<Rightarrow> string set \<Rightarrow> string set" where
  "walk (JStr s) found = (if is_asset s then insert s found else found)"
| "walk (JObj kvs) found = fold (\<lambda>kv. walk (snd kv)) kvs found"
| "walk (JArr xs) found = fold walk xs found"
| "walk _ found = found"

definition extract_assets :: "json \<Rightarrow> string set" where
  "extract_assets data = walk data {}"

text \<open>
  The string leaves of a document, in the spec's words: the strings reached by going
  through lists and through the values of objects (keys are not leaves).
\<close>

fun string_leaves :: "json \<Rightarrow> string set" where
  "string_leaves (JStr s) = {s}"
| "string_leaves (JObj kvs) = (\<Union>kv \<in> set kvs. string_leaves (snd kv))"
| "string_leaves (JArr xs) = (\<Union>x \<in> set xs. string_leaves x)"
| "string_leaves _ = {}"

text \<open>The suffix test written out in the spec's words.\<close>

definition has_asset_suffix :: "string \<Rightarrow> bool" where
  "has_asset_suffix s =
     (\<exists>e \<in> {''.moc3'', ''.model3.json'', ''.json'', ''.png'', ''.wav'', ''.mp3''}.
        suffix e (lower s))"


section \<open>The network and the disk\<close>

text \<open>
  What the scripts meet outside themselves. A file system is a map from path strings to
  contents (two strings are two files). \<^verbatim>\<open>session.get\<close> either raises or answers with a
  status code and a body that arrives in chunks and may break off with an exception
  after them; \<^verbatim>\<open>session.head\<close> raises or answers with a status code and a
  \<^verbatim>\<open>Content-Length\<close> header, which may be missing or may not be an integer for \<^verbatim>\<open>int\<close>.
  The exceptions are those of \<^verbatim>\<open>requests\<close> and of the file system: \<^verbatim>\<open>Timeout\<close>,
  \<^verbatim>\<open>ConnectionError\<close>, any other \<^verbatim>\<open>RequestException\<close> (all three are subclasses of
  \<^verbatim>\<open>IOError\<close>), and an \<^verbatim>\<open>IOError\<close> of the disk. \<^verbatim>\<open>HTTPError\<close> comes from
  \<^verbatim>\<open>raise_for_status\<close> alone.
\<close>

type_synonym bytes = string

type_synonym fs = "string \<rightharpoonup> bytes"

datatype exn = Timeout | ConnectionError | RequestException | IOError

datatype reply = Raises exn | Response nat "bytes list" "exn option"

datatype content_length = NoHeader | NotAnInt | Length int

datatype head_reply = HeadRaises | HeadResponse nat content_length

text \<open>
  Where the disk fails during one download attempt, if it does: when the file is opened
  for writing, at the write with the given index (from 0), when the old file is removed,
  or when the temporary file is renamed.
\<close>

datatype fault = NoFault | OpenFault | WriteFault nat | RemoveFault | RenameFault

text \<open>
  The environment of a run. Replies and faults depend on the URL and on the number of
  requests made before, so a server may answer differently each time.
  \<^verbatim>\<open>urllib.parse\<close>'s quoting and joining and the \<^verbatim>\<open>json\<close> module are taken as they are:
  \<^verbatim>\<open>loads\<close> is \<^const>\<open>None\<close> where \<^verbatim>\<open>json.load\<close> raises. \<^verbatim>\<open>set_order\<close> is the order in
  which Python happens to iterate a set of strings.
\<close>

record env =
  on_head :: "string \<Rightarrow> nat \<Rightarrow> head_reply"
  on_get :: "string \<Rightarrow> nat \<Rightarrow> reply"
  disk :: "nat \<Rightarrow> fault"
  makedirs_ok :: "string \<Rightarrow> bool"
  quote_url :: "string \<Rightarrow> string"
  urljoin :: "string \<Rightarrow> string \<Rightarrow> string"
  url_path :: "string \<Rightarrow> string"
  loads :: "bytes \<Rightarrow> json option"
  dumps :: "json \<Rightarrow> bytes"
  set_order :: "string set \<Rightarrow> string list"
  cwd :: string

datatype request = HEAD string | GET string

text \<open>
  The state a run changes: the files, the requests sent so far, the delays slept so far,
  and every state the file system has been in, oldest first.
\<close>

record world =
  files :: fs
  requests :: "request list"
  slept :: "nat list"
  seen :: "fs list"

definition set_files :: "fs \<Rightarrow> world \<Rightarrow> world" where
  "set_files f w = w\<lparr>files := f, seen := seen w @ [f]\<rparr>"

definition send :: "request \<Rightarrow> world \<Rightarrow> world" where
  "send r w = w\<lparr>requests := requests w @ [r]\<rparr>"

definition sleep :: "nat \<Rightarrow> world \<Rightarrow> world" where
  "sleep secs w = w\<lparr>slept := slept w @ [secs]\<rparr>"

text \<open>\<^verbatim>\<open>open(path, "wb")\<close> leaves an empty file; \<^verbatim>\<open>f.write(chunk)\<close> appends to it.\<close>

definition open_wb :: "string \<Rightarrow> world \<Rightarrow> world" where
  "open_wb path w = set_files ((files w)(path \<mapsto> [])) w"

definition write_to :: "string \<Rightarrow> bytes \<Rightarrow> world \<Rightarrow> world" where
  "write_to path chunk w =
     set_files ((files w)(path \<mapsto> (case files w path of None \<Rightarrow> chunk | Some old \<Rightarrow> old @ chunk))) w"

text \<open>
  The loop \<^verbatim>\<open>for chunk in ...: f.write(chunk)\<close>. \<^verbatim>\<open>limit\<close> is the number of writes the
  disk still takes before one raises; the result is False when a write raised.
\<close>

fun write_chunks :: "string \<Rightarrow> bytes list \<Rightarrow> nat option \<Rightarrow> world \<Rightarrow> bool \<times> world" where
  "write_chunks path [] limit w = (True, w)"
| "write_chunks path (chunk # chunks) limit w =
     (if limit = Some 0 then (False, w)
      else write_chunks path chunks (map_option (\<lambda>n. n - 1) limit) (write_to path chunk w))"

fun write_limit :: "fault \<Rightarrow> nat option" where
  "write_limit (WriteFault k) = Some k"
| "write_limit _ = None"

text \<open>\<^verbatim>\<open>os.path.abspath\<close>.\<close>

definition abspath :: "env \<Rightarrow> string \<Rightarrow> string" where
  "abspath E path = normpath (if startswith path ''/'' then path else path_join (cwd E) [path])"

text \<open>How one pass through the body of a retry loop ends.\<close>

datatype outcome = Returned bool | Caught

section \<open>The fetcher of 1model.new.py (download_file)\<close>

definition MAX_RETRIES :: nat where
  "MAX_RETRIES = 5"

definition RETRY_DELAY :: nat where
  "RETRY_DELAY = 5"

text \<open>
  Lines 84 to 91: the HEAD request. \<^verbatim>\<open>remote_size\<close> stays -1 unless the answer has status
  200; a missing header gives \<^verbatim>\<open>int(-1)\<close>, and a header \<^verbatim>\<open>int\<close> rejects raises inside the
  bare \<^verbatim>\<open>except\<close>.
\<close>

definition probe :: "env \<Rightarrow> string \<Rightarrow> world \<Rightarrow> int \<times> world" where
  "probe E url w =
     (case on_head E url (length (requests w)) of
        HeadRaises \<Rightarrow> (- 1, send (HEAD url) w)
      | HeadResponse status cl \<Rightarrow>
          (if status = 200
           then (case cl of NoHeader \<Rightarrow> - 1 | NotAnInt \<Rightarrow> - 1 | Length n \<Rightarrow> n)
           else - 1,
           send (HEAD url) w))"

text \<open>
  Lines 128 to 133: the old file is removed if there is one, and the temporary file is
  renamed to the final path.
\<close>

definition install :: "fault \<Rightarrow> string \<Rightarrow> string \<Rightarrow> world \<Rightarrow> outcome \<times> world" where
  "install flt tmp_path local_filepath w =
     (if files w local_filepath \<noteq> None \<and> flt = RemoveFault then (Caught, w)
      else
        let w' = (if files w local_filepath \<noteq> None
                  then set_files ((files w)(local_filepath := None)) w
                  else w)
        in if flt = RenameFault then (Caught, w')
           else (Returned True,
                 set_files ((files w')(tmp_path := None, local_filepath := files w' tmp_path)) w'))"

text \<open>
  Lines 117 to 133: the body is streamed to \<^verbatim>\<open>local_filepath + ".tmp"\<close> (empty chunks
  are passed over), and only a body that came to its end is installed.
\<close>

definition store :: "fault \<Rightarrow> string \<Rightarrow> bytes list \<Rightarrow> exn option \<Rightarrow> world \<Rightarrow> outcome \<times> world" where
  "store flt local_filepath chunks ending w =
     (if flt = OpenFault then (Caught, w)
      else
        let tmp_path = local_filepath @ ''.tmp'';
            (written, w') =
              write_chunks tmp_path (filter (\<lambda>chunk. chunk \<noteq> []) chunks) (write_limit flt)
                (open_wb tmp_path w)
        in if \<not> written \<or> ending \<noteq> None then (Caught, w')
           else install flt tmp_path local_filepath w')"

text \<open>
  One pass through the \<^verbatim>\<open>try\<close> of lines 101 to 133. Every exception of the body is one
  of \<^verbatim>\<open>(RequestException, IOError)\<close> and is caught; \<^verbatim>\<open>raise_for_status\<close> raises for a
  status from 400 to 599.
\<close>

definition get_attempt :: "env \<Rightarrow> string \<Rightarrow> string \<Rightarrow> world \<Rightarrow> outcome \<times> world" where
  "get_attempt E url local_filepath w =
     (let now = length (requests w);
          w' = send (GET (quote_url E url)) w
      in case on_get E url now of
           Raises e \<Rightarrow> (Caught, w')
         | Response status chunks ending \<Rightarrow>
             if status = 404 then (Returned False, w')
             else if 400 \<le> status \<and> status < 600 then (Caught, w')
             else store (disk E now) local_filepath chunks ending w')"

text \<open>
  The loop \<^verbatim>\<open>for attempt in range(MAX_RETRIES)\<close> with its \<^verbatim>\<open>except\<close> clause: after a
  caught exception it sleeps \<^verbatim>\<open>RETRY_DELAY * (attempt + 1)\<close> unless the attempt was the last.
\<close>

fun retry :: "env \<Rightarrow> string \<Rightarrow> string \<Rightarrow> nat list \<Rightarrow> world \<Rightarrow> bool \<times> world" where
  "retry E url local_filepath [] w = (False, w)"
| "retry E url local_filepath (attempt # rest) w =
     (case get_attempt E url local_filepath w of
        (Returned b, w') \<Rightarrow> (b, w')
      | (Caught, w') \<Rightarrow>
          retry E url local_filepath rest
            (if attempt < MAX_RETRIES - 1 then sleep (RETRY_DELAY * (attempt + 1)) w' else w'))"

text \<open>
  The path the function works on: normalised, and past 250 characters given the
  extended-length prefix (\<^verbatim>\<open>local_dir\<close> is taken before the prefix is added).
\<close>

definition long_path :: "env \<Rightarrow> string \<Rightarrow> string" where
  "long_path E local_filepath =
     (if length local_filepath > 250
      then [CHR 0x5C, CHR 0x5C, CHR ''?'', CHR 0x5C] @ abspath E local_filepath
      else local_filepath)"

text \<open>
  Lines 94 to 96: the file is there, \<^verbatim>\<open>remote_size\<close> is not -1, and the two sizes are
  equal.
\<close>

definition size_matches :: "fs \<Rightarrow> string \<Rightarrow> int \<Rightarrow> bool" where
  "size_matches f local_filepath remote_size =
     (case f local_filepath of
        None \<Rightarrow> False
      | Some content \<Rightarrow> remote_size \<noteq> - 1 \<and> int (length content) = remote_size)"

definition download_file :: "env \<Rightarrow> string \<Rightarrow> string \<Rightarrow> bool \<Rightarrow> world \<Rightarrow> bool \<times> world" where
  "download_file E url path force w =
     (let local_dir = dirname (normpath path);
          local_filepath = long_path E (normpath path)
      in if local_dir \<noteq> [] \<and> \<not> makedirs_ok E local_dir then (False, w)
         else
           let (remote_size, w') = (if force then (- 1, w) else probe E url w)
           in if \<not> force \<and> size_matches (files w') local_filepath remote_size then (True, w')
              else retry E url local_filepath [0..<MAX_RETRIES] w')"

section \<open>The fetcher of 1model.py (download_file)\<close>

definition MAX_RETRIES_v1 :: nat where
  "MAX_RETRIES_v1 = 5"

definition RETRY_DELAY_v1 :: nat where
  "RETRY_DELAY_v1 = 10"

text \<open>
  The three \<^verbatim>\<open>except\<close> clauses in their order: \<^verbatim>\<open>(Timeout, ConnectionError)\<close> goes on to
  the sleep; \<^verbatim>\<open>HTTPError\<close> returns False for a status from 400 to 499 and goes on
  otherwise; \<^verbatim>\<open>IOError\<close>, which also catches every other exception of \<^verbatim>\<open>requests\<close>,
  returns False.
\<close>

definition handle_v1 :: "exn \<Rightarrow> outcome" where
  "handle_v1 e = (if e = Timeout \<or> e = ConnectionError then Caught else Returned False)"

text \<open>
  Lines 57 to 62: the body is written straight to \<^verbatim>\<open>local_filepath\<close>. An exception of
  the disk is an \<^verbatim>\<open>IOError\<close>; one of the stream is handled by its class.
\<close>

definition store_v1 :: "fault \<Rightarrow> string \<Rightarrow> bytes list \<Rightarrow> exn option \<Rightarrow> world \<Rightarrow> outcome \<times> world" where
  "store_v1 flt local_filepath chunks ending w =
     (if flt = OpenFault then (Returned False, w)
      else
        let (written, w') =
              write_chunks local_filepath chunks (write_limit flt) (open_wb local_filepath w)
        in if \<not> written then (Returned False, w')
           else (case ending of
                   Some e \<Rightarrow> (handle_v1 e, w')
                 | None \<Rightarrow> (Returned True, w')))"

text \<open>One pass through the \<^verbatim>\<open>try\<close> of lines 48 to 83.\<close>

definition get_attempt_v1 :: "env \<Rightarrow> string \<Rightarrow> string \<Rightarrow> world \<Rightarrow> outcome \<times> world" where
  "get_attempt_v1 E url local_filepath w =
     (let now = length (requests w);
          w' = send (GET url) w
      in case on_get E url now of
           Raises e \<Rightarrow> (handle_v1 e, w')
         | Response status chunks ending \<Rightarrow>
             if 400 \<le> status \<and> status < 600
             then (if status < 500 then Returned False else Caught, w')
             else store_v1 (disk E now) local_filepath chunks ending w')"

fun retry_v1 :: "env \<Rightarrow> string \<Rightarrow> string \<Rightarrow> nat list \<Rightarrow> world \<Rightarrow> bool \<times> world" where
  "retry_v1 E url local_filepath [] w = (False, w)"
| "retry_v1 E url local_filepath (attempt # rest) w =
     (case get_attempt_v1 E url local_filepath w of
        (Returned b, w') \<Rightarrow> (b, w')
      | (Caught, w') \<Rightarrow>
          retry_v1 E url local_filepath rest
            (if attempt < MAX_RETRIES_v1 - 1 then sleep RETRY_DELAY_v1 w' else w'))"

definition download_file_v1 :: "env \<Rightarrow> string \<Rightarrow> string \<Rightarrow> world \<Rightarrow> bool \<times> world" where
  "download_file_v1 E url local_filepath w =
     (let local_dir = dirname local_filepath
      in if local_dir \<noteq> [] \<and> \<not> makedirs_ok E local_dir then (False, w)
         else retry_v1 E url local_filepath [0..<MAX_RETRIES_v1] w)"

section \<open>The fetcher of 2audio.py (download_file)\<close>

text \<open>One attempt, no loop: both \<^verbatim>\<open>except\<close> clauses return False.\<close>

definition download_file_audio :: "env \<Rightarrow> string \<Rightarrow> string \<Rightarrow> world \<Rightarrow> bool \<times> world" where
  "download_file_audio E url local_filepath w =
     (let local_dir = dirname local_filepath
      in if local_dir \<noteq> [] \<and> \<not> makedirs_ok E local_dir then (False, w)
         else
           let now = length (requests w);
               w' = send (GET url) w
           in case on_get E url now of
                Raises e \<Rightarrow> (False, w')
              | Response status chunks ending \<Rightarrow>
                  if 400 \<le> status \<and> status < 600 then (False, w')
                  else if disk E now = OpenFault then (False, w')
                  else
                    let (written, w'') =
                          write_chunks local_filepath chunks (write_limit (disk E now))
                            (open_wb local_filepath w')
                    in (written \<and> ending = None, w''))"


section \<open>The dependent assets of a model (1model.new.py, process_model)\<close>

text \<open>
  Lines 177 to 185: one task is submitted for every reference that \<^verbatim>\<open>extract_assets\<close>
  found, except for a reference whose file name is that of the descriptor itself.
\<close>

definition submitted :: "string \<Rightarrow> json \<Rightarrow> string set" where
  "submitted local_path data =
     {rel \<in> extract_assets data. basename rel \<noteq> basename local_path}"

text \<open>The arguments \<^verbatim>\<open>(target_url, target_local)\<close> of the task for one reference.\<close>

definition fetch_task :: "env \<Rightarrow> string \<Rightarrow> string \<Rightarrow> string \<Rightarrow> string \<times> string" where
  "fetch_task E local_path url rel =
     (urljoin E (dirname url @ ''/'') rel, safe_path_join (dirname local_path) rel)"

text \<open>
  The tasks run in a pool of threads; here they run one after the other, in the order
  in which they were submitted. A descriptor that cannot be opened or parsed ends the
  function (the bare \<^verbatim>\<open>except\<close>), and so does nothing.
\<close>

definition process_model :: "env \<Rightarrow> string \<Rightarrow> string \<Rightarrow> world \<Rightarrow> world" where
  "process_model E local_path url w =
     (case files w local_path of
        None \<Rightarrow> w
      | Some content \<Rightarrow>
          (case loads E content of
             None \<Rightarrow> w
           | Some data \<Rightarrow>
               fold (\<lambda>rel w'. case fetch_task E local_path url rel of
                                 (target_url, target_local) \<Rightarrow>
                                   snd (download_file E target_url target_local False w'))
                 (set_order E (submitted local_path data)) w))"

section \<open>The dependent assets of a model (1model.py, process_model3_json)\<close>

text \<open>\<^verbatim>\<open>d.values()\<close>: only a dict has the method.\<close>

fun dict_values :: "json \<Rightarrow> json list option" where
  "dict_values (JObj kvs) = Some (map snd kvs)"
| "dict_values _ = None"

text \<open>All results, or \<^const>\<open>None\<close> when one of the steps raised.\<close>

fun all_of :: "'a option list \<Rightarrow> 'a list option" where
  "all_of [] = Some []"
| "all_of (x # xs) =
     (case x of None \<Rightarrow> None
      | Some y \<Rightarrow> (case all_of xs of None \<Rightarrow> None | Some ys \<Rightarrow> Some (y # ys)))"

text \<open>
  Lines 117 to 131: the list \<^verbatim>\<open>asset_paths\<close>. \<^verbatim>\<open>Moc\<close>, \<^verbatim>\<open>Physics\<close>, \<^verbatim>\<open>Pose\<close> and the
  \<^verbatim>\<open>File\<close> of an expression or of a motion are added when they are true for \<^verbatim>\<open>if\<close>;
  the textures are all added. A missing section counts as empty. The result is
  \<^const>\<open>None\<close> when Python raises: \<^verbatim>\<open>.get\<close> on a value that is no dict, a loop over a value
  that cannot be iterated.
\<close>

definition asset_paths :: "json \<Rightarrow> json list option" where
  "asset_paths file_refs =
     (case (dict_get file_refs ''Moc'' JNull, dict_get file_refs ''Physics'' JNull,
            dict_get file_refs ''Pose'' JNull,
            Option.bind (dict_get file_refs ''Textures'' (JArr [])) iterate,
            Option.bind (dict_get file_refs ''Expressions'' (JArr [])) iterate,
            Option.bind (dict_get file_refs ''Motions'' (JObj [])) dict_values) of
        (Some moc, Some physics, Some pose, Some textures, Some expressions, Some groups) \<Rightarrow>
          (case (all_of (map (\<lambda>exp. dict_get exp ''File'' JNull) expressions),
                 Option.bind (all_of (map iterate groups))
                   (\<lambda>motions. all_of (map (\<lambda>motion. dict_get motion ''File'' JNull) (concat motions)))) of
             (Some expression_files, Some motion_files) \<Rightarrow>
               Some (filter truthy [moc, physics, pose] @ textures
                     @ filter truthy expression_files @ filter truthy motion_files)
           | _ \<Rightarrow> None)
      | _ \<Rightarrow> None)"

text \<open>
  Line 133, \<^verbatim>\<open>set(asset_paths)\<close>, and the use of each element as a str in the loop: a
  list or a dict cannot be hashed, and \<^verbatim>\<open>urljoin\<close> raises on an element that is no str.
  The order of a set is not fixed; an element that is no str is taken to come first, so
  that the function raises before it fetches anything.
\<close>

fun as_str :: "json \<Rightarrow> string option" where
  "as_str (JStr s) = Some s"
| "as_str _ = None"

definition asset_refs :: "json \<Rightarrow> string set option" where
  "asset_refs file_refs =
     (case Option.bind (asset_paths file_refs) (\<lambda>paths. all_of (map as_str paths)) of
        None \<Rightarrow> None
      | Some refs \<Rightarrow> Some (set refs))"

text \<open>
  The function returns normally (True) or lets an exception out (False). A descriptor
  that cannot be read or parsed, or that has no \<^verbatim>\<open>FileReferences\<close>, ends it normally.
\<close>

definition process_model3_json :: "env \<Rightarrow> string \<Rightarrow> string \<Rightarrow> world \<Rightarrow> bool \<times> world" where
  "process_model3_json E model_local_path model_full_url w =
     (case files w model_local_path of
        None \<Rightarrow> (True, w)
      | Some content \<Rightarrow>
          (case loads E content of
             None \<Rightarrow> (True, w)
           | Some model_data \<Rightarrow>
               (case dict_get model_data ''FileReferences'' (JObj []) of
                  None \<Rightarrow> (False, w)
                | Some file_refs \<Rightarrow>
                    if \<not> truthy file_refs then (True, w)
                    else
                      (case asset_refs file_refs of
                         None \<Rightarrow> (False, w)
                       | Some refs \<Rightarrow>
                           (True,
                            fold (\<lambda>rel w'.
                                    snd (download_file_v1 E
                                           (urljoin E (dirname model_full_url @ ''/'') rel)
                                           (path_join (dirname model_local_path) (split rel ''/''))
                                           w'))
                              (set_order E refs) w)))))"

section \<open>Notions the statements about the fetchers use\<close>

text \<open>
  A network-level error: a timeout or a failure of the connection.
\<close>

definition net_error :: "exn \<Rightarrow> bool" where
  "net_error e = (e = Timeout \<or> e = ConnectionError)"

text \<open>
  A reply that the spec calls a network-level error or a server-side error: the request
  raised a network-level error, or the status is from 500 to 599, or the status is no
  error status and the body broke off with a network-level error while it was read.
\<close>

definition transient :: "reply \<Rightarrow> bool" where
  "transient r =
     (case r of
        Raises e \<Rightarrow> net_error e
      | Response status chunks ending \<Rightarrow>
          (500 \<le> status \<and> status < 600)
          \<or> (\<not> (400 \<le> status \<and> status < 600)
              \<and> (case ending of None \<Rightarrow> False | Some e \<Rightarrow> net_error e)))"

text \<open>The disk takes every chunk of a body: the file opens and no write raises.\<close>

definition writes_all :: "fault \<Rightarrow> bytes list \<Rightarrow> bool" where
  "writes_all flt chunks =
     (flt \<noteq> OpenFault
      \<and> (case write_limit flt of None \<Rightarrow> True | Some k \<Rightarrow> length chunks \<le> k))"

text \<open>
  The same for 1model.py, where a body is written straight to the final path and a
  failure of the disk is not retried: a body that broke off counts only when the disk
  took the chunks that had arrived.
\<close>

definition transient_v1 :: "reply \<Rightarrow> fault \<Rightarrow> bool" where
  "transient_v1 r flt =
     (case r of
        Raises e \<Rightarrow> net_error e
      | Response status chunks ending \<Rightarrow>
          (500 \<le> status \<and> status < 600)
          \<or> (\<not> (400 \<le> status \<and> status < 600) \<and> writes_all flt chunks
              \<and> (case ending of None \<Rightarrow> False | Some e \<Rightarrow> net_error e)))"

text \<open>
  A reply that is an exception other than a network-level error: raised by the request,
  or by the body of an answer with no error status while it is read (for example a
  \<^verbatim>\<open>ChunkedEncodingError\<close>).
\<close>

definition other_error :: "reply \<Rightarrow> bool" where
  "other_error r =
     (case r of
        Raises e \<Rightarrow> \<not> net_error e
      | Response status chunks ending \<Rightarrow>
          \<not> (400 \<le> status \<and> status < 600)
          \<and> (case ending of None \<Rightarrow> False | Some e \<Rightarrow> \<not> net_error e))"

text \<open>
  \<^verbatim>\<open>passes w w' P\<close>: from \<^verbatim>\<open>w\<close> to \<^verbatim>\<open>w'\<close> the file system went through new states only,
  and each of them satisfies \<^verbatim>\<open>P\<close>.
\<close>

definition passes :: "world \<Rightarrow> world \<Rightarrow> (fs \<Rightarrow> bool) \<Rightarrow> bool" where
  "passes w w' P = (\<exists>new. seen w' = seen w @ new \<and> list_all P new)"

text \<open>
  \<^verbatim>\<open>kept E url path since f g\<close>: the state \<^verbatim>\<open>g\<close> differs from \<^verbatim>\<open>f\<close> at most at \<^verbatim>\<open>path\<close> and
  at \<^verbatim>\<open>path + ".tmp"\<close>, and what it holds at \<^verbatim>\<open>path\<close> is what \<^verbatim>\<open>f\<close> holds there, or
  nothing, or the whole body of an answer to a GET of \<^verbatim>\<open>url\<close>, sent as request number
  \<^verbatim>\<open>since\<close> or later, that came to its end.
\<close>

definition kept :: "env \<Rightarrow> string \<Rightarrow> string \<Rightarrow> nat \<Rightarrow> fs \<Rightarrow> fs \<Rightarrow> bool" where
  "kept E url path since f g =
     ((\<forall>x. x \<noteq> path \<and> x \<noteq> path @ ''.tmp'' \<longrightarrow> g x = f x)
      \<and> (g path = f path \<or> g path = None
         \<or> (\<exists>n status chunks. since \<le> n \<and> on_get E url n = Response status chunks None
                                \<and> g path = Some (concat chunks))))"

text \<open>The requests a call has added to the log.\<close>

definition sent :: "world \<Rightarrow> world \<Rightarrow> request list" where
  "sent w w' = drop (length (requests w)) (requests w')"

text \<open>
  An environment whose server gives the same answer to every GET, and a world with no
  files: the inputs of the concrete runs below.
\<close>

definition env_always :: "reply \<Rightarrow> env" where
  "env_always r =
     \<lparr>on_head = (\<lambda>url n. HeadRaises), on_get = (\<lambda>url n. r), disk = (\<lambda>n. NoFault),
      makedirs_ok = (\<lambda>d. True), quote_url = (\<lambda>url. url), urljoin = (\<lambda>base rel. base @ rel),
      url_path = (\<lambda>url. url), loads = (\<lambda>b. None), dumps = (\<lambda>j. []),
      set_order = sorted_list_of_set, cwd = ''/''\<rparr>"

definition empty_world :: world where
  "empty_world = \<lparr>files = Map.empty, requests = [], slept = [], seen = []\<rparr>"

section \<open>Notions the statement about the path sanitizer uses\<close>





section \<open>The pattern of the manifest reference (re.search)\<close>

text \<open>
  Both \<^verbatim>\<open>main\<close> functions look in the text of index.js for
  \<^verbatim>\<open>'(./json/)?(live2dMaster.*?\.json)\?([a-zA-Z0-9]+)'\<close>. The text is taken to be ASCII,
  one \<^typ>\<open>char\<close> for each character. The pattern is built from literals, single characters
  of a class (\<^verbatim>\<open>.\<close> is any character but the newline, \<^verbatim>\<open>[a-zA-Z0-9]\<close> the ASCII letters and
  digits), the lazy star and the greedy plus of such a class, the greedy option, groups and
  concatenation.
\<close>

datatype atom = AnyChar | Alnum

fun atom_ok :: "atom \<Rightarrow> char \<Rightarrow> bool" where
  "atom_ok AnyChar c = (c \<noteq> CHR 0x0A)"
| "atom_ok Alnum c =
     (let n = (of_char c :: nat)
      in (97 \<le> n \<and> n \<le> 122) \<or> (65 \<le> n \<and> n \<le> 90) \<or> (48 \<le> n \<and> n \<le> 57))"

datatype re =
    Lit string
  | One atom
  | StarLazy atom
  | PlusGreedy atom
  | Optional re
  | Capture nat re
  | Concat re re

text \<open>
  \<^verbatim>\<open>ways r s\<close>: all the ways in which \<^verbatim>\<open>r\<close> matches at the start of \<^verbatim>\<open>s\<close>, in the order in
  which the backtracking matcher of \<^verbatim>\<open>re\<close> tries them: a lazy star takes the shortest run
  first, a greedy plus the longest, an option is tried before it is skipped. A way is the
  groups it has set, the text it has matched and the text left over.
\<close>

type_synonym way = "(nat \<times> string) list \<times> string \<times> string"

fun ways :: "re \<Rightarrow> string \<Rightarrow> way list" where
  "ways (Lit l) s = (if prefix l s then [([], l, drop (length l) s)] else [])"
| "ways (One a) s = (case s of [] \<Rightarrow> [] | c # cs \<Rightarrow> if atom_ok a c then [([], [c], cs)] else [])"
| "ways (StarLazy a) s =
     map (\<lambda>n. ([], take n s, drop n s)) [0..<Suc (length (takeWhile (atom_ok a) s))]"
| "ways (PlusGreedy a) s =
     map (\<lambda>n. ([], take n s, drop n s)) (rev [1..<Suc (length (takeWhile (atom_ok a) s))])"
| "ways (Optional r) s = ways r s @ [([], [], s)]"
| "ways (Capture n r) s = map (\<lambda>(gs, m, rest). ((n, m) # gs, m, rest)) (ways r s)"
| "ways (Concat r1 r2) s =
     concat (map (\<lambda>(gs1, m1, rest1).
                    map (\<lambda>(gs2, m2, rest2). (gs1 @ gs2, m1 @ m2, rest2)) (ways r2 rest1))
               (ways r1 s))"






section \<open>The manifest resolver (main, up to the rewritten index.js)\<close>

text \<open>The constants are the same in 1model.new.py and in 1model.py.\<close>

definition INDEX_JS_URL :: string where
  "INDEX_JS_URL = ''https://l2d.su/json/index.js''"


definition STATIC_HOST :: string where
  "STATIC_HOST = ''https://static.l2d.su/''"











section \<open>The fetchers: lemmas and claims C2, C3 and C4\<close>

lemma send_simps [simp]:
  "requests (send r w) = requests w @ [r]" "files (send r w) = files w"
  "slept (send r w) = slept w" "seen (send r w) = seen w"
  by (simp_all add: send_def)

lemma sleep_simps [simp]:
  "requests (sleep d w) = requests w" "files (sleep d w) = files w"
  "slept (sleep d w) = slept w @ [d]" "seen (sleep d w) = seen w"
  by (simp_all add: sleep_def)

lemma set_files_simps [simp]:
  "requests (set_files f w) = requests w" "files (set_files f w) = f"
  "slept (set_files f w) = slept w" "seen (set_files f w) = seen w @ [f]"
  by (simp_all add: set_files_def)

lemma passes_refl: "seen w' = seen w \<Longrightarrow> passes w w' P"
  by (simp add: passes_def)

lemma passes_trans: "passes w w1 P \<Longrightarrow> passes w1 w2 P \<Longrightarrow> passes w w2 P"
  by (auto simp: passes_def)

lemma passes_set_files: "P f \<Longrightarrow> passes w (set_files f w) P"
  by (simp add: passes_def)

lemma write_chunks_frame:
  "write_chunks p cs lim w = (ok, w') \<Longrightarrow>
     requests w' = requests w \<and> slept w' = slept w
     \<and> passes w w' (\<lambda>g. \<forall>x. x \<noteq> p \<longrightarrow> g x = files w x)
     \<and> (\<forall>x. x \<noteq> p \<longrightarrow> files w' x = files w x)"
proof (induction cs arbitrary: lim w)
  case Nil
  then show ?case by (auto simp: passes_refl)
next
  case (Cons c cs)
  show ?case
  proof (cases "lim = Some 0")
    case True
    with Cons.prems show ?thesis by (auto simp: passes_refl)
  next
    case False
    let ?w1 = "write_to p c w"
    from False Cons.prems have rec: "write_chunks p cs (map_option (\<lambda>n. n - 1) lim) ?w1 = (ok, w')"
      by simp
    have f1: "\<forall>x. x \<noteq> p \<longrightarrow> files ?w1 x = files w x" by (simp add: write_to_def)
    have p1: "passes w ?w1 (\<lambda>g. \<forall>x. x \<noteq> p \<longrightarrow> g x = files w x)"
      unfolding write_to_def by (rule passes_set_files) simp
    from Cons.IH[OF rec] f1 have
      "requests w' = requests w" "slept w' = slept w"
      "passes ?w1 w' (\<lambda>g. \<forall>x. x \<noteq> p \<longrightarrow> g x = files w x)"
      "\<forall>x. x \<noteq> p \<longrightarrow> files w' x = files w x"
      by (simp_all add: write_to_def)
    with p1 show ?thesis by (blast intro: passes_trans)
  qed
qed

lemma write_chunks_all:
  "write_chunks p cs lim w = (True, w') \<Longrightarrow> files w p = Some old \<Longrightarrow>
   files w' p = Some (old @ concat cs)"
proof (induction cs arbitrary: w old lim)
  case Nil
  then show ?case by simp
next
  case (Cons c cs)
  from Cons.prems have ne: "lim \<noteq> Some 0" by auto
  with Cons.prems have "write_chunks p cs (map_option (\<lambda>n. n - 1) lim) (write_to p c w) = (True, w')"
    by simp
  moreover from Cons.prems have "files (write_to p c w) p = Some (old @ c)"
    by (simp add: write_to_def)
  ultimately show ?case using Cons.IH by fastforce
qed

lemma concat_filter_nonempty: "concat (filter (\<lambda>c. c \<noteq> []) cs) = concat cs"
  by (induction cs) auto

lemma kept_refl: "kept E url path since f f"
  by (simp add: kept_def)

lemma kept_trans:
  "kept E url path since f g \<Longrightarrow> kept E url path since g h \<Longrightarrow> kept E url path since f h"
  unfolding kept_def by metis

lemma kept_mono: "kept E url path later f g \<Longrightarrow> since \<le> later \<Longrightarrow> kept E url path since f g"
  unfolding kept_def by (meson le_trans)

lemma kept_tmp: "(\<forall>x. x \<noteq> path @ ''.tmp'' \<longrightarrow> g x = f x) \<Longrightarrow> kept E url path since f g"
  by (simp add: kept_def)

lemma passes_mono: "passes w w' P \<Longrightarrow> (\<And>g. P g \<Longrightarrow> Q g) \<Longrightarrow> passes w w' Q"
  by (auto simp: passes_def list_all_iff)

lemma install_frame:
  assumes "install flt (lf @ ''.tmp'') lf w = (out, w')"
      and "files w (lf @ ''.tmp'') = Some (concat chunks)"
      and "on_get E url n = Response status chunks None" and "since \<le> n"
  shows "slept w' = slept w \<and> requests w' = requests w
         \<and> passes w w' (kept E url lf since (files w)) \<and> kept E url lf since (files w) (files w')
         \<and> (out \<noteq> Returned True \<and> flt \<noteq> RenameFault \<longrightarrow> files w' lf = files w lf)"
proof -
  let ?tmp = "lf @ ''.tmp''"
  let ?w1 = "if files w lf \<noteq> None then set_files ((files w)(lf := None)) w else w"
  have k1: "kept E url lf since (files w) (files ?w1)" by (auto simp: kept_def)
  have p1: "passes w ?w1 (kept E url lf since (files w))"
    using k1 by (auto intro: passes_set_files passes_refl)
  let ?f2 = "(files ?w1)(?tmp := None, lf := files ?w1 ?tmp)"
  have "?f2 lf = Some (concat chunks)" using assms(2) by simp
  then have k2: "kept E url lf since (files w) ?f2"
    using assms(3,4) unfolding kept_def by (intro conjI) auto
  have p2: "passes w (set_files ?f2 ?w1) (kept E url lf since (files w))"
    using p1 k2 by (blast intro: passes_trans passes_set_files)
  consider (a) "files w lf \<noteq> None \<and> flt = RemoveFault"
    | (b) "\<not> (files w lf \<noteq> None \<and> flt = RemoveFault)" "flt = RenameFault"
    | (c) "\<not> (files w lf \<noteq> None \<and> flt = RemoveFault)" "flt \<noteq> RenameFault" by blast
  then show ?thesis
  proof cases
    case a
    with assms(1) have "out = Caught" "w' = w" by (auto simp: install_def)
    then show ?thesis by (simp add: passes_refl kept_refl)
  next
    case b
    with assms(1) have "out = Caught" "w' = ?w1" by (auto simp: install_def Let_def)
    with p1 k1 b show ?thesis by simp
  next
    case c
    with assms(1) have "out = Returned True" "w' = set_files ?f2 ?w1"
      by (auto simp: install_def Let_def)
    with p2 k2 show ?thesis by simp
  qed
qed

lemma store_frame:
  assumes "store flt lf chunks ending w = (out, w')"
      and "ending = None \<longrightarrow> on_get E url n = Response status chunks None" and "since \<le> n"
  shows "slept w' = slept w \<and> requests w' = requests w
         \<and> passes w w' (kept E url lf since (files w)) \<and> kept E url lf since (files w) (files w')
         \<and> (out \<noteq> Returned True \<and> flt \<noteq> RenameFault \<longrightarrow> files w' lf = files w lf)"
proof (cases "flt = OpenFault")
  case True
  with assms show ?thesis by (auto simp: store_def passes_refl kept_refl)
next
  case False
  let ?tmp = "lf @ ''.tmp''"
  let ?w1 = "open_wb ?tmp w"
  let ?K = "kept E url lf since (files w)"
  obtain written w2 where wc:
    "write_chunks ?tmp (filter (\<lambda>chunk. chunk \<noteq> []) chunks) (write_limit flt) ?w1 = (written, w2)"
    by fastforce
  note fr = write_chunks_frame[OF wc]
  have f1: "\<forall>x. x \<noteq> ?tmp \<longrightarrow> files ?w1 x = files w x" by (simp add: open_wb_def)
  have p1: "passes w ?w1 ?K"
    unfolding open_wb_def passes_def by (simp add: kept_def)
  have p2: "passes ?w1 w2 ?K"
    using fr f1 by (auto intro!: kept_tmp elim!: passes_mono)
  have p12: "passes w w2 ?K"
    using p1 p2 by (rule passes_trans)
  have f2: "\<forall>x. x \<noteq> ?tmp \<longrightarrow> files w2 x = files w x" using fr f1 by simp
  have k2: "?K (files w2)" using f2 by (rule kept_tmp)
  have r2: "requests w2 = requests w" "slept w2 = slept w"
    using fr by (simp_all add: open_wb_def)
  show ?thesis
  proof (cases "\<not> written \<or> ending \<noteq> None")
    case True
    with assms(1) False wc have "out = Caught" "w' = w2"
      by (auto simp: store_def Let_def)
    with p12 k2 r2 f2 show ?thesis by simp
  next
    case ok: False
    then have "written" "ending = None" by auto
    with assms(1) False wc have inst: "install flt ?tmp lf w2 = (out, w')"
      by (auto simp: store_def Let_def)
    have "files ?w1 ?tmp = Some []" by (simp add: open_wb_def)
    from write_chunks_all[OF wc[unfolded \<open>written\<close>[THEN eqTrueI]] this]
    have body: "files w2 ?tmp = Some (concat chunks)" by (simp add: concat_filter_nonempty)
    from assms(2) \<open>ending = None\<close> have og: "on_get E url n = Response status chunks None" by simp
    note i = install_frame[OF inst body og assms(3)]
    from i have "passes w2 w' ?K"
      using k2 by (auto elim!: passes_mono intro: kept_trans)
    with p12 have "passes w w' ?K" by (rule passes_trans)
    moreover from i k2 have "?K (files w')" by (blast intro: kept_trans)
    moreover from i f2 have "out \<noteq> Returned True \<and> flt \<noteq> RenameFault \<longrightarrow> files w' lf = files w lf"
      by simp
    ultimately show ?thesis using i r2 by simp
  qed
qed

lemma get_attempt_frame:
  assumes "get_attempt E url lf w = (out, w')"
  shows "slept w' = slept w \<and> requests w' = requests w @ [GET (quote_url E url)]
         \<and> passes w w' (kept E url lf (length (requests w)) (files w))
         \<and> kept E url lf (length (requests w)) (files w) (files w')
         \<and> (out \<noteq> Returned True \<and> disk E (length (requests w)) \<noteq> RenameFault
              \<longrightarrow> files w' lf = files w lf)"
proof (cases "on_get E url (length (requests w))")
  case (Raises e)
  with assms show ?thesis by (auto simp: get_attempt_def Let_def passes_refl kept_refl)
next
  case (Response status chunks ending)
  show ?thesis
  proof (cases "status = 404 \<or> (400 \<le> status \<and> status < 600)")
    case True
    with assms Response have "w' = send (GET (quote_url E url)) w" "out \<noteq> Returned True"
      by (auto simp: get_attempt_def Let_def split: if_splits)
    then show ?thesis by (simp add: passes_refl kept_refl)
  next
    case False
    with assms Response have
      st: "store (disk E (length (requests w))) lf chunks ending (send (GET (quote_url E url)) w) = (out, w')"
      by (auto simp: get_attempt_def Let_def)
    have "ending = None \<longrightarrow> on_get E url (length (requests w)) = Response status chunks None"
      using Response by simp
    from store_frame[OF st this order_refl] show ?thesis
      by (simp add: passes_def)
  qed
qed

lemma retry_frame:
  assumes "retry E url lf atts w = (r, w')"
  shows "passes w w' (kept E url lf (length (requests w)) (files w))
         \<and> kept E url lf (length (requests w)) (files w) (files w')
         \<and> (\<not> r \<and> (\<forall>n. disk E n \<noteq> RenameFault) \<longrightarrow> files w' lf = files w lf)
         \<and> slept w @ drop (length (slept w)) (slept w') = slept w'
         \<and> (\<exists>k \<le> length atts. requests w' = requests w @ replicate k (GET (quote_url E url))
                \<and> (atts \<noteq> [] \<longrightarrow> 0 < k))"
  using assms
proof (induction atts arbitrary: w)
  case Nil
  then show ?case by (simp add: passes_refl kept_refl)
next
  case (Cons a atts)
  let ?n = "length (requests w)"
  obtain out w1 where ga: "get_attempt E url lf w = (out, w1)" by fastforce
  note fr = get_attempt_frame[OF ga]
  show ?case
  proof (cases out)
    case (Returned b)
    with Cons.prems ga have "r = b" "w' = w1" by simp_all
    moreover have "\<exists>k \<le> length (a # atts). requests w1 = requests w @ replicate k (GET (quote_url E url))
                \<and> (a # atts \<noteq> [] \<longrightarrow> 0 < k)"
      using fr by (intro exI[of _ 1]) simp
    ultimately show ?thesis using fr Returned by auto
  next
    case Caught
    let ?w2 = "if a < MAX_RETRIES - 1 then sleep (RETRY_DELAY * (a + 1)) w1 else w1"
    from Caught Cons.prems ga have rec: "retry E url lf atts ?w2 = (r, w')" by simp
    have same: "files ?w2 = files w1" "seen ?w2 = seen w1" "requests ?w2 = requests w1" by simp_all
    note ih = Cons.IH[OF rec]
    from ih same fr have "passes w1 w' (kept E url lf (Suc ?n) (files w1))"
      by (simp add: passes_def)
    then have "passes w1 w' (kept E url lf ?n (files w1))"
      by (auto elim!: passes_mono intro: kept_mono)
    then have "passes w1 w' (kept E url lf ?n (files w))"
      using fr by (auto elim!: passes_mono intro: kept_trans)
    with fr have "passes w w' (kept E url lf ?n (files w))" by (blast intro: passes_trans)
    moreover from ih same fr have "kept E url lf (Suc ?n) (files w1) (files w')" by simp
    then have "kept E url lf ?n (files w1) (files w')" by (auto intro: kept_mono)
    with fr have "kept E url lf ?n (files w) (files w')"
      by (auto intro: kept_trans)
    moreover from ih same fr Caught
    have "\<not> r \<and> (\<forall>n. disk E n \<noteq> RenameFault) \<longrightarrow> files w' lf = files w lf" by auto
    moreover from ih obtain k where k: "k \<le> length atts"
        "requests w' = requests ?w2 @ replicate k (GET (quote_url E url))" by blast
    then have "requests w' = requests w @ replicate (Suc k) (GET (quote_url E url))"
      using fr same by (simp add: replicate_app_Cons_same)
    with k have "\<exists>k \<le> length (a # atts). requests w' = requests w @ replicate k (GET (quote_url E url))
                \<and> (a # atts \<noteq> [] \<longrightarrow> 0 < k)"
      by (intro exI[of _ "Suc k"]) simp
    moreover have "slept w @ drop (length (slept w)) (slept w') = slept w'"
    proof -
      from ih have "slept ?w2 @ drop (length (slept ?w2)) (slept w') = slept w'" by simp
      moreover from fr have "\<exists>ds. slept ?w2 = slept w @ ds" by simp
      ultimately show ?thesis by (metis append.assoc append_eq_conv_conj)
    qed
    ultimately show ?thesis by simp
  qed
qed

lemma probe_world: "snd (probe E url w) = send (HEAD url) w"
  by (auto simp: probe_def split: head_reply.splits)

lemma download_file_unfold:
  "download_file E url path force w =
     (if dirname (normpath path) \<noteq> [] \<and> \<not> makedirs_ok E (dirname (normpath path)) then (False, w)
      else if force then retry E url (long_path E (normpath path)) [0..<MAX_RETRIES] w
      else if size_matches (files w) (long_path E (normpath path)) (fst (probe E url w))
           then (True, send (HEAD url) w)
      else retry E url (long_path E (normpath path)) [0..<MAX_RETRIES] (send (HEAD url) w))"
proof -
  obtain n w1 where pr: "probe E url w = (n, w1)" by fastforce
  then have "w1 = send (HEAD url) w"
    using probe_world[of E url w] by simp
  with pr show ?thesis by (simp add: download_file_def Let_def)
qed

lemma download_file_frame:
  assumes "download_file E url path force w = (r, w')" and "lf = long_path E (normpath path)"
  shows "passes w w' (kept E url lf (length (requests w)) (files w))
         \<and> kept E url lf (length (requests w)) (files w) (files w')
         \<and> (\<not> r \<and> (\<forall>n. disk E n \<noteq> RenameFault) \<longrightarrow> files w' lf = files w lf)"
proof -
  let ?h = "send (HEAD url) w"
  have h: "files ?h = files w" "seen ?h = seen w" "length (requests ?h) = Suc (length (requests w))"
    by simp_all
  consider (a) "w' = w" | (b) "w' = ?h"
    | (c) "retry E url lf [0..<MAX_RETRIES] w = (r, w')"
    | (d) "retry E url lf [0..<MAX_RETRIES] ?h = (r, w')"
    using assms unfolding download_file_unfold by (auto split: if_splits)
  then show ?thesis
  proof cases
    case a then show ?thesis by (simp add: passes_refl kept_refl)
  next
    case b then show ?thesis by (simp add: passes_refl kept_refl)
  next
    case c from retry_frame[OF c] show ?thesis by simp
  next
    case d
    from retry_frame[OF d] h
    have "passes w w' (kept E url lf (Suc (length (requests w))) (files w))"
      "kept E url lf (Suc (length (requests w))) (files w) (files w')"
      "\<not> r \<and> (\<forall>n. disk E n \<noteq> RenameFault) \<longrightarrow> files w' lf = files w lf"
      by (simp_all add: passes_def)
    then show ?thesis by (auto elim!: passes_mono intro: kept_mono)
  qed
qed


lemma download_file_v1_unfold:
  "download_file_v1 E url lf w =
     (if dirname lf \<noteq> [] \<and> \<not> makedirs_ok E (dirname lf) then (False, w)
      else retry_v1 E url lf [0..<MAX_RETRIES_v1] w)"
  by (simp add: download_file_v1_def Let_def)

lemma upt_MAX: "[0..<MAX_RETRIES] = 0 # [1..<MAX_RETRIES]" "[0..<MAX_RETRIES_v1] = 0 # [1..<MAX_RETRIES_v1]"
  by (simp_all add: MAX_RETRIES_def MAX_RETRIES_v1_def upt_rec)

text \<open>
  Claim C2, as amended. A GET answered with status 404 ends the retry loop of
  1model.new.py at once, whatever attempts are left: the result is False, one request
  was sent, nothing was slept and no file was touched. In 1model.py the same holds for
  every status from 400 to 499. (In 1model.new.py only 404 is tested before
  \<^verbatim>\<open>raise_for_status\<close>, so any other 4xx status is caught and retried like a network
  error.)
\<close>

theorem client_error_no_retry:
  "(on_get E url (length (requests w)) = Response 404 chunks ending \<longrightarrow>
      retry E url lf (attempt # rest) w = (False, send (GET (quote_url E url)) w)
      \<and> ((dirname (normpath path) = [] \<or> makedirs_ok E (dirname (normpath path))) \<longrightarrow>
           download_file E url path True w = (False, send (GET (quote_url E url)) w)))
   \<and> (on_get E url (length (requests w)) = Response status chunks ending
        \<and> 400 \<le> status \<and> status < 500 \<longrightarrow>
      retry_v1 E url lf (attempt # rest) w = (False, send (GET url) w)
      \<and> ((dirname lf = [] \<or> makedirs_ok E (dirname lf)) \<longrightarrow>
           download_file_v1 E url lf w = (False, send (GET url) w)))"
proof (intro conjI impI)
  assume r: "on_get E url (length (requests w)) = Response 404 chunks ending"
  then have ga: "\<And>p. get_attempt E url p w = (Returned False, send (GET (quote_url E url)) w)"
    by (simp add: get_attempt_def Let_def)
  show "retry E url lf (attempt # rest) w = (False, send (GET (quote_url E url)) w)"
    by (simp add: ga)
  assume "dirname (normpath path) = [] \<or> makedirs_ok E (dirname (normpath path))"
  then show "download_file E url path True w = (False, send (GET (quote_url E url)) w)"
    by (auto simp: download_file_unfold upt_MAX ga)
next
  assume r: "on_get E url (length (requests w)) = Response status chunks ending
        \<and> 400 \<le> status \<and> status < 500"
  then have ga: "\<And>p. get_attempt_v1 E url p w = (Returned False, send (GET url) w)"
    by (simp add: get_attempt_v1_def Let_def)
  show "retry_v1 E url lf (attempt # rest) w = (False, send (GET url) w)"
    by (simp add: ga)
  assume "dirname lf = [] \<or> makedirs_ok E (dirname lf)"
  then show "download_file_v1 E url lf w = (False, send (GET url) w)"
    by (auto simp: download_file_v1_unfold upt_MAX ga)
qed

lemma env_always_simps [simp]:
  "on_get (env_always r) url n = r" "on_head (env_always r) url n = HeadRaises"
  "disk (env_always r) n = NoFault" "makedirs_ok (env_always r) d"
  "quote_url (env_always r) url = url" "cwd (env_always r) = ''/''"
  by (simp_all add: env_always_def)

text \<open>The statement of C2 at a server that always answers 404.\<close>

theorem client_error_no_retry_witness:
  "on_get (env_always (Response 404 [] None)) ''u'' (length (requests empty_world)) = Response 404 [] None
   \<and> (400::nat) \<le> 404 \<and> (404::nat) < 500
   \<and> (dirname (normpath ''x'') = [] \<or> makedirs_ok (env_always (Response 404 [] None)) (dirname (normpath ''x'')))
   \<and> (dirname ''x'' = [] \<or> makedirs_ok (env_always (Response 404 [] None)) (dirname ''x''))
   \<and> retry (env_always (Response 404 [] None)) ''u'' ''x'' (0 # [1, 2, 3, 4]) empty_world
       = (False, send (GET ''u'') empty_world)
   \<and> download_file (env_always (Response 404 [] None)) ''u'' ''x'' True empty_world
       = (False, send (GET ''u'') empty_world)
   \<and> retry_v1 (env_always (Response 404 [] None)) ''u'' ''x'' (0 # [1, 2, 3, 4]) empty_world
       = (False, send (GET ''u'') empty_world)
   \<and> download_file_v1 (env_always (Response 404 [] None)) ''u'' ''x'' empty_world
       = (False, send (GET ''u'') empty_world)"
  using client_error_no_retry[of "env_always (Response 404 [] None)" "''u''" empty_world "[]" None
      "''x''" 0 "[1, 2, 3, 4]" "''x''" 404]
  by simp

text \<open>
  C2 as stated fails in 1model.new.py: a server that answers 403 is asked five times,
  with sleeps of 5, 10, 15 and 20 seconds in between.
\<close>

theorem client_error_retried_counterexample:
  "on_get (env_always (Response 403 [] None)) ''u'' 0 = Response 403 [] None
   \<and> fst (download_file (env_always (Response 403 [] None)) ''u'' ''x'' True empty_world) = False
   \<and> requests (snd (download_file (env_always (Response 403 [] None)) ''u'' ''x'' True empty_world))
       = [GET ''u'', GET ''u'', GET ''u'', GET ''u'', GET ''u'']
   \<and> slept (snd (download_file (env_always (Response 403 [] None)) ''u'' ''x'' True empty_world))
       = [5, 10, 15, 20]"
  by code_simp


lemma sent_mem:
  "requests w' = requests w @ rs \<Longrightarrow> sent w w' = rs"
  by (simp add: sent_def)

lemma retry_sends:
  assumes "retry E url lf [0..<MAX_RETRIES] w = (r, w')"
  shows "GET (quote_url E url) \<in> set (drop (length (requests w)) (requests w'))"
proof -
  from retry_frame[OF assms] obtain k where
    "requests w' = requests w @ replicate k (GET (quote_url E url))" "[0..<MAX_RETRIES] \<noteq> [] \<longrightarrow> 0 < k"
    by blast
  moreover have "[0..<MAX_RETRIES] \<noteq> []" by (simp add: MAX_RETRIES_def)
  ultimately show ?thesis by auto
qed

text \<open>
  Claim C4. Without \<^verbatim>\<open>force\<close>, download_file of 1model.new.py returns True without sending
  a GET exactly when the directory could be made (the HEAD request comes after that),
  the file is there, the HEAD request gave a size other than -1 and the file has that
  size. When the size is -1 a GET is sent. The size is -1 when the HEAD request raised,
  when its status was not 200, when the header was missing or not an integer, and when
  the header was -1 itself.
\<close>

theorem skip_iff_size_matches:
  "(fst (download_file E url path False w)
      \<and> GET (quote_url E url) \<notin> set (sent w (snd (download_file E url path False w))))
     = ((dirname (normpath path) = [] \<or> makedirs_ok E (dirname (normpath path)))
        \<and> (\<exists>content. files w (long_path E (normpath path)) = Some content
              \<and> fst (probe E url w) \<noteq> - 1
              \<and> int (length content) = fst (probe E url w)))
   \<and> ((dirname (normpath path) = [] \<or> makedirs_ok E (dirname (normpath path)))
        \<and> fst (probe E url w) = - 1
       \<longrightarrow> GET (quote_url E url) \<in> set (sent w (snd (download_file E url path False w))))
   \<and> fst (probe E url w) =
       (case on_head E url (length (requests w)) of
          HeadRaises \<Rightarrow> - 1
        | HeadResponse status NoHeader \<Rightarrow> - 1
        | HeadResponse status NotAnInt \<Rightarrow> - 1
        | HeadResponse status (Length n) \<Rightarrow> if status = 200 then n else - 1)"
proof -
  let ?lf = "long_path E (normpath path)"
  let ?ok = "dirname (normpath path) = [] \<or> makedirs_ok E (dirname (normpath path))"
  let ?m = "size_matches (files w) ?lf (fst (probe E url w))"
  let ?res = "download_file E url path False w"
  have m: "?m = (\<exists>content. files w ?lf = Some content \<and> fst (probe E url w) \<noteq> - 1
              \<and> int (length content) = fst (probe E url w))"
    by (auto simp: size_matches_def split: option.splits)
  have p: "fst (probe E url w) =
       (case on_head E url (length (requests w)) of
          HeadRaises \<Rightarrow> - 1
        | HeadResponse status NoHeader \<Rightarrow> - 1
        | HeadResponse status NotAnInt \<Rightarrow> - 1
        | HeadResponse status (Length n) \<Rightarrow> if status = 200 then n else - 1)"
    by (simp add: probe_def split: head_reply.splits content_length.splits)
  have nm: "fst (probe E url w) = - 1 \<Longrightarrow> \<not> ?m"
    by (simp add: size_matches_def split: option.splits)
  consider (fail) "\<not> ?ok" | (skip) "?ok" "?m" | (fetch) "?ok" "\<not> ?m" by blast
  then have both: "((fst ?res \<and> GET (quote_url E url) \<notin> set (sent w (snd ?res))) = (?ok \<and> ?m))
       \<and> (?ok \<and> \<not> ?m \<longrightarrow> GET (quote_url E url) \<in> set (sent w (snd ?res)))"
  proof cases
    case fail
    then have "?res = (False, w)" by (auto simp: download_file_unfold)
    with fail show ?thesis by simp
  next
    case skip
    then have "?res = (True, send (HEAD url) w)" by (auto simp: download_file_unfold)
    with skip show ?thesis by (simp add: sent_def)
  next
    case fetch
    then have r: "retry E url ?lf [0..<MAX_RETRIES] (send (HEAD url) w) = ?res"
      by (auto simp: download_file_unfold)
    then have "retry E url ?lf [0..<MAX_RETRIES] (send (HEAD url) w) = (fst ?res, snd ?res)" by simp
    from retry_sends[OF this]
    have "GET (quote_url E url) \<in> set (drop (Suc (length (requests w))) (requests (snd ?res)))"
      by simp
    then have "GET (quote_url E url) \<in> set (sent w (snd ?res))"
      unfolding sent_def by (meson in_set_dropD drop_Suc set_drop_subset_set_drop subsetD le_SucI order_refl)
    with fetch show ?thesis by simp
  qed
  from both m nm p show ?thesis by blast
qed

text \<open>
  Claim C3, as amended. During a call of download_file of 1model.new.py every state of
  the file system differs from the one before the call at most at the final path and at
  its \<^verbatim>\<open>.tmp\<close> sibling, and the final path holds what it held before, or nothing (between
  the removal and the rename), or the whole body of an answer received during the call
  that came to its end. When the call returns False and no rename failed, the final
  path holds what it held before. (1model.py and 2audio.py write the body straight to
  the final path.)
\<close>

theorem temp_file_then_rename:
  "passes w (snd (download_file E url path force w))
     (kept E url (long_path E (normpath path)) (length (requests w)) (files w))
   \<and> (\<not> fst (download_file E url path force w) \<and> (\<forall>n. disk E n \<noteq> RenameFault) \<longrightarrow>
        files (snd (download_file E url path force w)) (long_path E (normpath path))
        = files w (long_path E (normpath path)))"
  using download_file_frame[of E url path force w "fst (download_file E url path force w)"
      "snd (download_file E url path force w)" "long_path E (normpath path)"]
  by simp

text \<open>The statement of C3 at a server whose body breaks off after two chunks, run over an
  old copy of the file: the old copy is still there.\<close>

theorem temp_file_then_rename_witness:
  "\<not> fst (download_file (env_always (Response 200 [''ab'', ''c''] (Some ConnectionError)))
            ''u'' ''x'' True (empty_world\<lparr>files := [''x'' \<mapsto> ''old'']\<rparr>))
   \<and> (\<forall>n. disk (env_always (Response 200 [''ab'', ''c''] (Some ConnectionError))) n \<noteq> RenameFault)
   \<and> passes (empty_world\<lparr>files := [''x'' \<mapsto> ''old'']\<rparr>)
        (snd (download_file (env_always (Response 200 [''ab'', ''c''] (Some ConnectionError)))
            ''u'' ''x'' True (empty_world\<lparr>files := [''x'' \<mapsto> ''old'']\<rparr>)))
        (kept (env_always (Response 200 [''ab'', ''c''] (Some ConnectionError))) ''u'' ''x'' 0
           [''x'' \<mapsto> ''old''])
   \<and> files (snd (download_file (env_always (Response 200 [''ab'', ''c''] (Some ConnectionError)))
            ''u'' ''x'' True (empty_world\<lparr>files := [''x'' \<mapsto> ''old'']\<rparr>))) ''x'' = Some ''old''"
proof -
  let ?E = "env_always (Response 200 [''ab'', ''c''] (Some ConnectionError))"
  let ?W = "empty_world\<lparr>files := [''x'' \<mapsto> ''old'']\<rparr>"
  have px: "dirname ''x'' = []" "normpath ''x'' = ''x''" by code_simp+
  have lp: "long_path ?E (normpath ''x'') = ''x''" by (simp add: px long_path_def)
  have nf: "\<not> fst (download_file ?E ''u'' ''x'' True ?W)"
    by (simp add: download_file_def px lp get_attempt_def store_def install_def
      open_wb_def write_to_def set_files_def send_def sleep_def env_always_def empty_world_def
      MAX_RETRIES_def RETRY_DELAY_def upt_rec Let_def)
  have w: "requests ?W = []" "files ?W = [''x'' \<mapsto> ''old'']" by (simp_all add: empty_world_def)
  show ?thesis
    using temp_file_then_rename[of ?W ?E "''u''" "''x''" True] nf lp w by simp
qed

text \<open>
  C3 as stated fails in 1model.py: when the body breaks off after the chunks \<^verbatim>\<open>ab\<close> and
  \<^verbatim>\<open>c\<close>, the call returns False and the final path holds \<^verbatim>\<open>abc\<close> in place of the old copy.
\<close>

theorem direct_write_counterexample:
  "on_get (env_always (Response 200 [''ab'', ''c''] (Some ConnectionError))) ''u'' 0
     = Response 200 [''ab'', ''c''] (Some ConnectionError)
   \<and> fst (download_file_v1 (env_always (Response 200 [''ab'', ''c''] (Some ConnectionError)))
            ''u'' ''x'' (empty_world\<lparr>files := [''x'' \<mapsto> ''old'']\<rparr>)) = False
   \<and> files (snd (download_file_v1 (env_always (Response 200 [''ab'', ''c''] (Some ConnectionError)))
            ''u'' ''x'' (empty_world\<lparr>files := [''x'' \<mapsto> ''old'']\<rparr>))) ''x'' = Some ''abc''"
  by (simp add: download_file_v1_def dirname_def upto_last_slash_def get_attempt_v1_def
      store_v1_def handle_v1_def open_wb_def write_to_def set_files_def send_def sleep_def
      env_always_def empty_world_def MAX_RETRIES_v1_def RETRY_DELAY_v1_def upt_rec Let_def)

text \<open>
  The statement of C4 at a file of three bytes: with no answer to HEAD the file is
  fetched, with the answer \<^verbatim>\<open>Content-Length: 3\<close> the call returns True without a GET.
\<close>

theorem skip_iff_size_matches_witness:
  "(dirname (normpath ''x'') = [] \<or> makedirs_ok (env_always (Raises Timeout)) (dirname (normpath ''x'')))
   \<and> fst (probe (env_always (Raises Timeout)) ''u'' (empty_world\<lparr>files := [''x'' \<mapsto> ''old'']\<rparr>)) = - 1
   \<and> GET ''u'' \<in> set (sent (empty_world\<lparr>files := [''x'' \<mapsto> ''old'']\<rparr>)
        (snd (download_file (env_always (Raises Timeout)) ''u'' ''x'' False
               (empty_world\<lparr>files := [''x'' \<mapsto> ''old'']\<rparr>))))
   \<and> files (empty_world\<lparr>files := [''x'' \<mapsto> ''old'']\<rparr>)
        (long_path ((env_always (Raises Timeout))\<lparr>on_head := \<lambda>url n. HeadResponse 200 (Length 3)\<rparr>)
           (normpath ''x'')) = Some ''old''
   \<and> fst (probe ((env_always (Raises Timeout))\<lparr>on_head := \<lambda>url n. HeadResponse 200 (Length 3)\<rparr>)
        ''u'' (empty_world\<lparr>files := [''x'' \<mapsto> ''old'']\<rparr>)) = 3
   \<and> fst (download_file ((env_always (Raises Timeout))\<lparr>on_head := \<lambda>url n. HeadResponse 200 (Length 3)\<rparr>)
        ''u'' ''x'' False (empty_world\<lparr>files := [''x'' \<mapsto> ''old'']\<rparr>))
   \<and> GET ''u'' \<notin> set (sent (empty_world\<lparr>files := [''x'' \<mapsto> ''old'']\<rparr>)
        (snd (download_file ((env_always (Raises Timeout))\<lparr>on_head := \<lambda>url n. HeadResponse 200 (Length 3)\<rparr>)
               ''u'' ''x'' False (empty_world\<lparr>files := [''x'' \<mapsto> ''old'']\<rparr>))))"
proof -
  let ?E = "env_always (Raises Timeout)"
  let ?H = "?E\<lparr>on_head := \<lambda>url n. HeadResponse 200 (Length 3)\<rparr>"
  let ?W = "empty_world\<lparr>files := [''x'' \<mapsto> ''old'']\<rparr>"
  have px: "dirname ''x'' = []" "normpath ''x'' = ''x''" by code_simp+
  have d: "dirname (normpath ''x'') = []" by (simp add: px)
  have p1: "fst (probe ?E ''u'' ?W) = - 1" by (simp add: probe_def)
  have p2: "fst (probe ?H ''u'' ?W) = 3" by (simp add: probe_def)
  have lp: "long_path ?H (normpath ''x'') = ''x''" by (simp add: px long_path_def)
  have q: "quote_url ?E ''u'' = ''u''" "quote_url ?H ''u'' = ''u''" by (simp_all add: env_always_def)
  have f: "files ?W ''x'' = Some ''old''" by simp
  from skip_iff_size_matches[of ?E "''u''" "''x''" ?W, THEN conjunct2, THEN conjunct1] d p1 q
  have a: "GET ''u'' \<in> set (sent ?W (snd (download_file ?E ''u'' ''x'' False ?W)))" by simp
  from skip_iff_size_matches[of ?H "''u''" "''x''" ?W, THEN conjunct1] d p2 q lp f
  have b: "fst (download_file ?H ''u'' ''x'' False ?W)
           \<and> GET ''u'' \<notin> set (sent ?W (snd (download_file ?H ''u'' ''x'' False ?W)))" by simp
  from a b d p1 p2 lp f show ?thesis by simp
qed

section \<open>The retry loops: claim C8\<close>

lemma store_broken: "fst (store flt lf chunks (Some e) w) = Caught"
  by (simp add: store_def Let_def split: prod.splits)

lemma get_attempt_transient:
  assumes "transient (on_get E url (length (requests w)))"
  shows "fst (get_attempt E url lf w) = Caught
         \<and> requests (snd (get_attempt E url lf w)) = requests w @ [GET (quote_url E url)]
         \<and> slept (snd (get_attempt E url lf w)) = slept w"
proof -
  have "fst (get_attempt E url lf w) = Caught"
    using assms store_broken
    by (auto simp: transient_def get_attempt_def Let_def split: reply.splits option.splits)
  moreover from get_attempt_frame[of E url lf w "fst (get_attempt E url lf w)" "snd (get_attempt E url lf w)"]
  have "requests (snd (get_attempt E url lf w)) = requests w @ [GET (quote_url E url)]"
    "slept (snd (get_attempt E url lf w)) = slept w" by simp_all
  ultimately show ?thesis by simp
qed

lemma write_chunks_limit:
  "(case limit of None \<Rightarrow> True | Some k \<Rightarrow> length chunks \<le> k) \<Longrightarrow>
   fst (write_chunks path chunks limit w) = True"
proof (induction chunks arbitrary: limit w)
  case Nil
  then show ?case by simp
next
  case (Cons c cs)
  show ?case
  proof (cases limit)
    case None
    with Cons.IH[of None] show ?thesis by simp
  next
    case (Some k)
    with Cons.prems obtain k' where k: "k = Suc k'" "length cs \<le> k'" by (cases k) auto
    with Some Cons.IH[of "Some k'"] show ?thesis by simp
  qed
qed

lemma write_chunks_world:
  "requests (snd (write_chunks path chunks limit w)) = requests w
   \<and> slept (snd (write_chunks path chunks limit w)) = slept w"
  using write_chunks_frame[of path chunks limit w "fst (write_chunks path chunks limit w)"
      "snd (write_chunks path chunks limit w)"] by simp

lemma store_v1_world:
  "requests (snd (store_v1 flt lf chunks ending w)) = requests w
   \<and> slept (snd (store_v1 flt lf chunks ending w)) = slept w"
proof -
  obtain written w' where wc: "write_chunks lf chunks (write_limit flt) (open_wb lf w) = (written, w')"
    by fastforce
  with write_chunks_world[of lf chunks "write_limit flt" "open_wb lf w"]
  have "requests w' = requests w" "slept w' = slept w" by (simp_all add: open_wb_def)
  with wc show ?thesis
    by (simp add: store_v1_def Let_def split: option.splits)
qed

lemma get_attempt_v1_world:
  "requests (snd (get_attempt_v1 E url lf w)) = requests w @ [GET url]
   \<and> slept (snd (get_attempt_v1 E url lf w)) = slept w"
  by (simp add: get_attempt_v1_def Let_def store_v1_world split: reply.splits)

lemma store_v1_broken:
  assumes "writes_all flt chunks"
  shows "fst (store_v1 flt lf chunks (Some e) w) = handle_v1 e"
proof -
  obtain written w' where wc: "write_chunks lf chunks (write_limit flt) (open_wb lf w) = (written, w')"
    by fastforce
  with assms write_chunks_limit[where limit = "write_limit flt" and chunks = chunks and path = lf
      and w = "open_wb lf w"]
  have "written" by (simp add: writes_all_def)
  with wc assms show ?thesis by (simp add: store_v1_def writes_all_def Let_def)
qed

lemma store_v1_other:
  "\<not> net_error e \<Longrightarrow> fst (store_v1 flt lf chunks (Some e) w) = Returned False"
  by (simp add: store_v1_def handle_v1_def net_error_def Let_def split: prod.splits)

lemma get_attempt_v1_transient:
  assumes "transient_v1 (on_get E url (length (requests w))) (disk E (length (requests w)))"
  shows "fst (get_attempt_v1 E url lf w) = Caught"
  using assms store_v1_broken
  by (auto simp: transient_v1_def get_attempt_v1_def handle_v1_def net_error_def Let_def
      split: reply.splits option.splits)

lemma get_attempt_v1_other:
  assumes "other_error (on_get E url (length (requests w)))"
  shows "fst (get_attempt_v1 E url lf w) = Returned False"
  using assms store_v1_other
  by (auto simp: other_error_def get_attempt_v1_def handle_v1_def net_error_def Let_def
      split: reply.splits option.splits)

lemma get_attempt_other:
  assumes "other_error (on_get E url (length (requests w)))"
  shows "fst (get_attempt E url lf w) = Caught"
  using assms store_broken
  by (auto simp: other_error_def get_attempt_def Let_def split: reply.splits option.splits)


lemma retry_Cons_caught:
  assumes "fst (get_attempt E url lf w) = Caught"
  shows "retry E url lf (a # rest) w =
         retry E url lf rest
           (if a < MAX_RETRIES - 1
            then sleep (RETRY_DELAY * (a + 1)) (snd (get_attempt E url lf w))
            else snd (get_attempt E url lf w))"
proof -
  from assms obtain w1 where "get_attempt E url lf w = (Caught, w1)"
    by (metis prod.collapse)
  then show ?thesis by simp
qed

lemma retry_v1_Cons_caught:
  assumes "fst (get_attempt_v1 E url lf w) = Caught"
  shows "retry_v1 E url lf (a # rest) w =
         retry_v1 E url lf rest
           (if a < MAX_RETRIES_v1 - 1
            then sleep RETRY_DELAY_v1 (snd (get_attempt_v1 E url lf w))
            else snd (get_attempt_v1 E url lf w))"
proof -
  from assms obtain w1 where "get_attempt_v1 E url lf w = (Caught, w1)"
    by (metis prod.collapse)
  then show ?thesis by simp
qed

lemma retry_backoff:
  assumes "k < MAX_RETRIES"
      and "\<And>j. j < k \<Longrightarrow> transient (on_get E url (length (requests w) + j))"
  shows "\<exists>w'. retry E url lf [0..<MAX_RETRIES] w = retry E url lf [k..<MAX_RETRIES] w'
              \<and> requests w' = requests w @ replicate k (GET (quote_url E url))
              \<and> slept w' = slept w @ map (\<lambda>j. RETRY_DELAY * (j + 1)) [0..<k]"
  using assms
proof (induction k)
  case 0
  show ?case by (intro exI[of _ w]) simp
next
  case (Suc k)
  from Suc.prems have k: "k < MAX_RETRIES" "k < MAX_RETRIES - 1" by simp_all
  from Suc.IH[OF k(1)] Suc.prems(2) obtain w' where w':
    "retry E url lf [0..<MAX_RETRIES] w = retry E url lf [k..<MAX_RETRIES] w'"
    "requests w' = requests w @ replicate k (GET (quote_url E url))"
    "slept w' = slept w @ map (\<lambda>j. RETRY_DELAY * (j + 1)) [0..<k]"
    by auto
  have "transient (on_get E url (length (requests w')))"
    using Suc.prems(2)[of k] w'(2) by simp
  note ga = get_attempt_transient[OF this, of lf]
  let ?w'' = "sleep (RETRY_DELAY * (k + 1)) (snd (get_attempt E url lf w'))"
  have "[k..<MAX_RETRIES] = k # [Suc k..<MAX_RETRIES]"
    using k by (simp add: upt_conv_Cons)
  then have "retry E url lf [k..<MAX_RETRIES] w' = retry E url lf [Suc k..<MAX_RETRIES] ?w''"
    using retry_Cons_caught[of E url lf w' k "[Suc k..<MAX_RETRIES]"] ga k by simp
  moreover have "requests ?w'' = requests w @ replicate (Suc k) (GET (quote_url E url))"
    using ga w'(2) by (simp add: replicate_append_same)
  moreover have "slept ?w'' = slept w @ map (\<lambda>j. RETRY_DELAY * (j + 1)) [0..<Suc k]"
    using ga w'(3) by simp
  ultimately show ?case using w'(1) by (intro exI[of _ ?w'']) simp
qed

lemma retry_exhausted:
  assumes "\<And>j. j < MAX_RETRIES \<Longrightarrow> transient (on_get E url (length (requests w) + j))"
  shows "fst (retry E url lf [0..<MAX_RETRIES] w) = False
       \<and> requests (snd (retry E url lf [0..<MAX_RETRIES] w))
           = requests w @ replicate MAX_RETRIES (GET (quote_url E url))
       \<and> slept (snd (retry E url lf [0..<MAX_RETRIES] w))
           = slept w @ map (\<lambda>j. RETRY_DELAY * (j + 1)) [0..<MAX_RETRIES - 1]"
proof -
  have m: "MAX_RETRIES - 1 < MAX_RETRIES" by (simp add: MAX_RETRIES_def)
  from retry_backoff[OF m, of E url w lf] assms obtain w' where w':
    "retry E url lf [0..<MAX_RETRIES] w = retry E url lf [MAX_RETRIES - 1..<MAX_RETRIES] w'"
    "requests w' = requests w @ replicate (MAX_RETRIES - 1) (GET (quote_url E url))"
    "slept w' = slept w @ map (\<lambda>j. RETRY_DELAY * (j + 1)) [0..<MAX_RETRIES - 1]"
    by auto
  have "transient (on_get E url (length (requests w')))"
    using assms[OF m] w'(2) by simp
  note ga = get_attempt_transient[OF this, of lf]
  have "[MAX_RETRIES - 1..<MAX_RETRIES] = [MAX_RETRIES - 1]"
    by (simp add: MAX_RETRIES_def upt_rec)
  then have "retry E url lf [0..<MAX_RETRIES] w = (False, snd (get_attempt E url lf w'))"
    using w'(1) retry_Cons_caught[of E url lf w' "MAX_RETRIES - 1" "[]"] ga by simp
  moreover have "requests w @ replicate (MAX_RETRIES - 1) (GET (quote_url E url)) @ [GET (quote_url E url)]
        = requests w @ replicate MAX_RETRIES (GET (quote_url E url))"
    by (simp add: MAX_RETRIES_def eval_nat_numeral replicate_append_same)
  ultimately show ?thesis using ga w'(2,3) by simp
qed

lemma retry_v1_backoff:
  assumes "k < MAX_RETRIES_v1"
      and "\<And>j. j < k \<Longrightarrow> transient_v1 (on_get E url (length (requests w) + j))
                                          (disk E (length (requests w) + j))"
  shows "\<exists>w'. retry_v1 E url lf [0..<MAX_RETRIES_v1] w = retry_v1 E url lf [k..<MAX_RETRIES_v1] w'
              \<and> requests w' = requests w @ replicate k (GET url)
              \<and> slept w' = slept w @ replicate k RETRY_DELAY_v1"
  using assms
proof (induction k)
  case 0
  show ?case by (intro exI[of _ w]) simp
next
  case (Suc k)
  from Suc.prems have k: "k < MAX_RETRIES_v1" "k < MAX_RETRIES_v1 - 1" by simp_all
  from Suc.IH[OF k(1)] Suc.prems(2) obtain w' where w':
    "retry_v1 E url lf [0..<MAX_RETRIES_v1] w = retry_v1 E url lf [k..<MAX_RETRIES_v1] w'"
    "requests w' = requests w @ replicate k (GET url)"
    "slept w' = slept w @ replicate k RETRY_DELAY_v1"
    by auto
  have "transient_v1 (on_get E url (length (requests w'))) (disk E (length (requests w')))"
    using Suc.prems(2)[of k] w'(2) by simp
  note ga = get_attempt_v1_transient[OF this, of lf]
  note gw = get_attempt_v1_world[of E url lf w']
  let ?w'' = "sleep RETRY_DELAY_v1 (snd (get_attempt_v1 E url lf w'))"
  have "[k..<MAX_RETRIES_v1] = k # [Suc k..<MAX_RETRIES_v1]"
    using k by (simp add: upt_conv_Cons)
  then have "retry_v1 E url lf [k..<MAX_RETRIES_v1] w' = retry_v1 E url lf [Suc k..<MAX_RETRIES_v1] ?w''"
    using retry_v1_Cons_caught[of E url lf w' k "[Suc k..<MAX_RETRIES_v1]"] ga k by simp
  moreover have "requests ?w'' = requests w @ replicate (Suc k) (GET url)"
    using gw w'(2) by (simp add: replicate_append_same)
  moreover have "slept ?w'' = slept w @ replicate (Suc k) RETRY_DELAY_v1"
    using gw w'(3) by (simp add: replicate_append_same)
  ultimately show ?case using w'(1) by (intro exI[of _ ?w'']) simp
qed

lemma retry_v1_exhausted:
  assumes "\<And>j. j < MAX_RETRIES_v1 \<Longrightarrow> transient_v1 (on_get E url (length (requests w) + j))
                                          (disk E (length (requests w) + j))"
  shows "fst (retry_v1 E url lf [0..<MAX_RETRIES_v1] w) = False
       \<and> requests (snd (retry_v1 E url lf [0..<MAX_RETRIES_v1] w))
           = requests w @ replicate MAX_RETRIES_v1 (GET url)
       \<and> slept (snd (retry_v1 E url lf [0..<MAX_RETRIES_v1] w))
           = slept w @ replicate (MAX_RETRIES_v1 - 1) RETRY_DELAY_v1"
proof -
  have m: "MAX_RETRIES_v1 - 1 < MAX_RETRIES_v1" by (simp add: MAX_RETRIES_v1_def)
  from retry_v1_backoff[OF m, of E url w lf] assms obtain w' where w':
    "retry_v1 E url lf [0..<MAX_RETRIES_v1] w = retry_v1 E url lf [MAX_RETRIES_v1 - 1..<MAX_RETRIES_v1] w'"
    "requests w' = requests w @ replicate (MAX_RETRIES_v1 - 1) (GET url)"
    "slept w' = slept w @ replicate (MAX_RETRIES_v1 - 1) RETRY_DELAY_v1"
    by auto
  have "transient_v1 (on_get E url (length (requests w'))) (disk E (length (requests w')))"
    using assms[OF m] w'(2) by simp
  note ga = get_attempt_v1_transient[OF this, of lf]
  note gw = get_attempt_v1_world[of E url lf w']
  have "[MAX_RETRIES_v1 - 1..<MAX_RETRIES_v1] = [MAX_RETRIES_v1 - 1]"
    by (simp add: MAX_RETRIES_v1_def upt_rec)
  then have "retry_v1 E url lf [0..<MAX_RETRIES_v1] w = (False, snd (get_attempt_v1 E url lf w'))"
    using w'(1) retry_v1_Cons_caught[of E url lf w' "MAX_RETRIES_v1 - 1" "[]"] ga by simp
  moreover have "requests w @ replicate (MAX_RETRIES_v1 - 1) (GET url) @ [GET url]
        = requests w @ replicate MAX_RETRIES_v1 (GET url)"
    by (simp add: MAX_RETRIES_v1_def eval_nat_numeral replicate_append_same)
  ultimately show ?thesis using gw w'(2,3) by simp
qed

lemma retry_v1_other:
  assumes "other_error (on_get E url (length (requests w)))"
  shows "fst (retry_v1 E url lf (a # rest) w) = False
       \<and> requests (snd (retry_v1 E url lf (a # rest) w)) = requests w @ [GET url]
       \<and> slept (snd (retry_v1 E url lf (a # rest) w)) = slept w"
proof -
  from get_attempt_v1_other[OF assms, of lf]
  obtain w1 where w1: "get_attempt_v1 E url lf w = (Returned False, w1)"
    by (metis prod.collapse)
  then have "retry_v1 E url lf (a # rest) w = (False, w1)" by simp
  then show ?thesis using get_attempt_v1_world[of E url lf w] w1 by simp
qed


text \<open>
  Claim C8, as amended. A network-level error is a timeout or a connection failure,
  raised by the request or while the body is read. While the GETs are answered by a
  network-level error or a 5xx status, both loops go on to the next attempt: after
  \<^verbatim>\<open>k < 5\<close> such answers the loop of 1model.new.py stands at attempt \<^verbatim>\<open>k\<close>, having sent \<^verbatim>\<open>k\<close>
  requests and slept 5, 10, ..., \<^verbatim>\<open>5 * k\<close> seconds, and after five of them it returns
  False having slept 5, 10, 15 and 20 seconds. The loop of 1model.py does the same with a
  constant sleep of 10 seconds, provided the disk took the chunks of a body that broke
  off. On any other exception of \<^verbatim>\<open>requests\<close> (raised by the request, or by the body
  while it is read) 1model.new.py goes on in the same way, and 1model.py returns False
  at once, after one request and no sleep. With the directory made, download_file is
  its retry loop.
\<close>

theorem retry_budget_and_backoff:
  "(k < 5 \<and> (\<forall>j<k. transient (on_get E url (length (requests w) + j))) \<longrightarrow>
      (\<exists>w'. retry E url lf [0..<MAX_RETRIES] w = retry E url lf [k..<MAX_RETRIES] w'
            \<and> requests w' = requests w @ replicate k (GET (quote_url E url))
            \<and> slept w' = slept w @ map (\<lambda>j. 5 * (j + 1)) [0..<k]))
   \<and> ((\<forall>j<5. transient (on_get E url (length (requests w) + j))) \<longrightarrow>
      \<not> fst (retry E url lf [0..<MAX_RETRIES] w)
      \<and> requests (snd (retry E url lf [0..<MAX_RETRIES] w))
          = requests w @ replicate 5 (GET (quote_url E url))
      \<and> slept (snd (retry E url lf [0..<MAX_RETRIES] w)) = slept w @ [5, 10, 15, 20])
   \<and> (k < 5 \<and> (\<forall>j<k. transient_v1 (on_get E url (length (requests w) + j))
                                      (disk E (length (requests w) + j))) \<longrightarrow>
      (\<exists>w'. retry_v1 E url lf [0..<MAX_RETRIES_v1] w = retry_v1 E url lf [k..<MAX_RETRIES_v1] w'
            \<and> requests w' = requests w @ replicate k (GET url)
            \<and> slept w' = slept w @ replicate k 10))
   \<and> ((\<forall>j<5. transient_v1 (on_get E url (length (requests w) + j))
                             (disk E (length (requests w) + j))) \<longrightarrow>
      \<not> fst (retry_v1 E url lf [0..<MAX_RETRIES_v1] w)
      \<and> requests (snd (retry_v1 E url lf [0..<MAX_RETRIES_v1] w))
          = requests w @ replicate 5 (GET url)
      \<and> slept (snd (retry_v1 E url lf [0..<MAX_RETRIES_v1] w)) = slept w @ [10, 10, 10, 10])
   \<and> (other_error (on_get E url (length (requests w))) \<longrightarrow>
      fst (get_attempt E url lf w) = Caught
      \<and> \<not> fst (retry_v1 E url lf (attempt # rest) w)
      \<and> requests (snd (retry_v1 E url lf (attempt # rest) w)) = requests w @ [GET url]
      \<and> slept (snd (retry_v1 E url lf (attempt # rest) w)) = slept w)
   \<and> (dirname (normpath path) = [] \<or> makedirs_ok E (dirname (normpath path)) \<longrightarrow>
      download_file E url path True w
        = retry E url (long_path E (normpath path)) [0..<MAX_RETRIES] w)
   \<and> (dirname lf = [] \<or> makedirs_ok E (dirname lf) \<longrightarrow>
      download_file_v1 E url lf w = retry_v1 E url lf [0..<MAX_RETRIES_v1] w)"
proof (intro conjI impI)
  assume "k < 5 \<and> (\<forall>j<k. transient (on_get E url (length (requests w) + j)))"
  then show "\<exists>w'. retry E url lf [0..<MAX_RETRIES] w = retry E url lf [k..<MAX_RETRIES] w'
            \<and> requests w' = requests w @ replicate k (GET (quote_url E url))
            \<and> slept w' = slept w @ map (\<lambda>j. 5 * (j + 1)) [0..<k]"
    using retry_backoff[of k E url w lf] by (simp add: MAX_RETRIES_def RETRY_DELAY_def)
next
  assume a: "\<forall>j<5. transient (on_get E url (length (requests w) + j))"
  have "map (\<lambda>j. RETRY_DELAY * (j + 1)) [0..<MAX_RETRIES - 1] = [5, 10, 15, 20]"
    by (simp add: MAX_RETRIES_def RETRY_DELAY_def upt_rec)
  with retry_exhausted[of E url w lf] a
  show "\<not> fst (retry E url lf [0..<MAX_RETRIES] w)"
    "requests (snd (retry E url lf [0..<MAX_RETRIES] w))
          = requests w @ replicate 5 (GET (quote_url E url))"
    "slept (snd (retry E url lf [0..<MAX_RETRIES] w)) = slept w @ [5, 10, 15, 20]"
    by (simp_all add: MAX_RETRIES_def)
next
  assume "k < 5 \<and> (\<forall>j<k. transient_v1 (on_get E url (length (requests w) + j))
                                      (disk E (length (requests w) + j)))"
  then show "\<exists>w'. retry_v1 E url lf [0..<MAX_RETRIES_v1] w = retry_v1 E url lf [k..<MAX_RETRIES_v1] w'
            \<and> requests w' = requests w @ replicate k (GET url)
            \<and> slept w' = slept w @ replicate k 10"
    using retry_v1_backoff[of k E url w lf] by (simp add: MAX_RETRIES_v1_def RETRY_DELAY_v1_def)
next
  assume a: "\<forall>j<5. transient_v1 (on_get E url (length (requests w) + j))
                             (disk E (length (requests w) + j))"
  have "replicate (MAX_RETRIES_v1 - 1) RETRY_DELAY_v1 = [10, 10, 10, 10]"
    by (simp add: MAX_RETRIES_v1_def RETRY_DELAY_v1_def eval_nat_numeral)
  with retry_v1_exhausted[of E url w lf] a
  show "\<not> fst (retry_v1 E url lf [0..<MAX_RETRIES_v1] w)"
    "requests (snd (retry_v1 E url lf [0..<MAX_RETRIES_v1] w))
          = requests w @ replicate 5 (GET url)"
    "slept (snd (retry_v1 E url lf [0..<MAX_RETRIES_v1] w)) = slept w @ [10, 10, 10, 10]"
    by (simp_all add: MAX_RETRIES_v1_def)
next
  assume o: "other_error (on_get E url (length (requests w)))"
  then show "fst (get_attempt E url lf w) = Caught" by (rule get_attempt_other)
  from retry_v1_other[OF o, of lf attempt rest]
  show "\<not> fst (retry_v1 E url lf (attempt # rest) w)"
    "requests (snd (retry_v1 E url lf (attempt # rest) w)) = requests w @ [GET url]"
    "slept (snd (retry_v1 E url lf (attempt # rest) w)) = slept w"
    by simp_all
next
  assume "dirname (normpath path) = [] \<or> makedirs_ok E (dirname (normpath path))"
  then show "download_file E url path True w
        = retry E url (long_path E (normpath path)) [0..<MAX_RETRIES] w"
    by (auto simp: download_file_unfold)
next
  assume "dirname lf = [] \<or> makedirs_ok E (dirname lf)"
  then show "download_file_v1 E url lf w = retry_v1 E url lf [0..<MAX_RETRIES_v1] w"
    by (auto simp: download_file_v1_unfold)
qed

text \<open>
  The statement of C8 at a server whose every body breaks off with a timeout, and at one
  whose every body breaks off with another exception of \<^verbatim>\<open>requests\<close>.
\<close>

theorem retry_budget_and_backoff_witness:
  "(2::nat) < 5
   \<and> (\<forall>j. transient (on_get (env_always (Response 200 [''ab''] (Some Timeout))) ''u''
                        (length (requests empty_world) + j)))
   \<and> (\<forall>j. transient_v1 (on_get (env_always (Response 200 [''ab''] (Some Timeout))) ''u''
                           (length (requests empty_world) + j))
                        (disk (env_always (Response 200 [''ab''] (Some Timeout)))
                           (length (requests empty_world) + j)))
   \<and> other_error (on_get (env_always (Response 200 [''ab''] (Some RequestException))) ''u''
                        (length (requests empty_world)))
   \<and> (dirname (normpath ''x'') = []
       \<or> makedirs_ok (env_always (Response 200 [''ab''] (Some Timeout))) (dirname (normpath ''x'')))
   \<and> (dirname ''x'' = []
       \<or> makedirs_ok (env_always (Response 200 [''ab''] (Some Timeout))) (dirname ''x''))
   \<and> (\<exists>w'. retry (env_always (Response 200 [''ab''] (Some Timeout))) ''u'' ''x'' [0..<MAX_RETRIES] empty_world
             = retry (env_always (Response 200 [''ab''] (Some Timeout))) ''u'' ''x'' [2..<MAX_RETRIES] w'
           \<and> requests w' = replicate 2 (GET ''u'') \<and> slept w' = [5, 10])
   \<and> \<not> fst (retry (env_always (Response 200 [''ab''] (Some Timeout))) ''u'' ''x'' [0..<MAX_RETRIES] empty_world)
   \<and> requests (snd (retry (env_always (Response 200 [''ab''] (Some Timeout))) ''u'' ''x'' [0..<MAX_RETRIES] empty_world))
       = replicate 5 (GET ''u'')
   \<and> slept (snd (retry (env_always (Response 200 [''ab''] (Some Timeout))) ''u'' ''x'' [0..<MAX_RETRIES] empty_world))
       = [5, 10, 15, 20]
   \<and> (\<exists>w'. retry_v1 (env_always (Response 200 [''ab''] (Some Timeout))) ''u'' ''x'' [0..<MAX_RETRIES_v1] empty_world
             = retry_v1 (env_always (Response 200 [''ab''] (Some Timeout))) ''u'' ''x'' [2..<MAX_RETRIES_v1] w'
           \<and> requests w' = replicate 2 (GET ''u'') \<and> slept w' = [10, 10])
   \<and> \<not> fst (retry_v1 (env_always (Response 200 [''ab''] (Some Timeout))) ''u'' ''x'' [0..<MAX_RETRIES_v1] empty_world)
   \<and> slept (snd (retry_v1 (env_always (Response 200 [''ab''] (Some Timeout))) ''u'' ''x'' [0..<MAX_RETRIES_v1] empty_world))
       = [10, 10, 10, 10]
   \<and> fst (get_attempt (env_always (Response 200 [''ab''] (Some RequestException))) ''u'' ''x'' empty_world) = Caught
   \<and> \<not> fst (retry_v1 (env_always (Response 200 [''ab''] (Some RequestException))) ''u'' ''x'' (0 # [1, 2, 3, 4]) empty_world)
   \<and> requests (snd (retry_v1 (env_always (Response 200 [''ab''] (Some RequestException))) ''u'' ''x'' (0 # [1, 2, 3, 4]) empty_world))
       = [GET ''u'']
   \<and> download_file (env_always (Response 200 [''ab''] (Some Timeout))) ''u'' ''x'' True empty_world
       = retry (env_always (Response 200 [''ab''] (Some Timeout))) ''u'' (long_path (env_always (Response 200 [''ab''] (Some Timeout))) (normpath ''x'')) [0..<MAX_RETRIES] empty_world
   \<and> download_file_v1 (env_always (Response 200 [''ab''] (Some Timeout))) ''u'' ''x'' empty_world
       = retry_v1 (env_always (Response 200 [''ab''] (Some Timeout))) ''u'' ''x'' [0..<MAX_RETRIES_v1] empty_world"
proof -
  let ?T = "env_always (Response 200 [''ab''] (Some Timeout))"
  let ?R = "env_always (Response 200 [''ab''] (Some RequestException))"
  have t: "\<And>n. transient (on_get ?T ''u'' n)"
    by (simp add: transient_def net_error_def)
  have t1: "\<And>n. transient_v1 (on_get ?T ''u'' n) (disk ?T n)"
    by (simp add: transient_v1_def net_error_def writes_all_def)
  have o: "other_error (on_get ?R ''u'' (length (requests empty_world)))"
    by (simp add: other_error_def net_error_def)
  have e: "requests empty_world = []" "slept empty_world = []" by (simp_all add: empty_world_def)
  have u: "[0..<2] = [0, Suc 0]" by (simp add: upt_rec)
  have px: "dirname ''x'' = []" "normpath ''x'' = ''x''" by code_simp+
  note th = retry_budget_and_backoff[of 2 ?T "''u''" empty_world "''x''" _ _ "''x''"]
  note th2 = retry_budget_and_backoff[of _ ?R "''u''" empty_world "''x''" 0 "[1, 2, 3, 4]"]
  have c1: "\<exists>w'. retry ?T ''u'' ''x'' [0..<MAX_RETRIES] empty_world
             = retry ?T ''u'' ''x'' [2..<MAX_RETRIES] w'
           \<and> requests w' = replicate 2 (GET ''u'') \<and> slept w' = [5, 10]"
    using th[THEN conjunct1] t by (simp add: e u)
  have c2: "\<not> fst (retry ?T ''u'' ''x'' [0..<MAX_RETRIES] empty_world)
      \<and> requests (snd (retry ?T ''u'' ''x'' [0..<MAX_RETRIES] empty_world)) = replicate 5 (GET ''u'')
      \<and> slept (snd (retry ?T ''u'' ''x'' [0..<MAX_RETRIES] empty_world)) = [5, 10, 15, 20]"
    using th[THEN conjunct2, THEN conjunct1] t by (simp add: e)
  have c3: "\<exists>w'. retry_v1 ?T ''u'' ''x'' [0..<MAX_RETRIES_v1] empty_world
             = retry_v1 ?T ''u'' ''x'' [2..<MAX_RETRIES_v1] w'
           \<and> requests w' = replicate 2 (GET ''u'') \<and> slept w' = [10, 10]"
    using th[THEN conjunct2, THEN conjunct2, THEN conjunct1] t1 by (simp add: e eval_nat_numeral)
  have c4: "\<not> fst (retry_v1 ?T ''u'' ''x'' [0..<MAX_RETRIES_v1] empty_world)
      \<and> slept (snd (retry_v1 ?T ''u'' ''x'' [0..<MAX_RETRIES_v1] empty_world)) = [10, 10, 10, 10]"
    using th[THEN conjunct2, THEN conjunct2, THEN conjunct2, THEN conjunct1] t1 by (simp add: e)
  have c5: "fst (get_attempt ?R ''u'' ''x'' empty_world) = Caught
      \<and> \<not> fst (retry_v1 ?R ''u'' ''x'' (0 # [1, 2, 3, 4]) empty_world)
      \<and> requests (snd (retry_v1 ?R ''u'' ''x'' (0 # [1, 2, 3, 4]) empty_world)) = [GET ''u'']"
    using th2[THEN conjunct2, THEN conjunct2, THEN conjunct2, THEN conjunct2, THEN conjunct1] o
    by (simp add: e)
  have c6: "download_file ?T ''u'' ''x'' True empty_world
       = retry ?T ''u'' (long_path ?T (normpath ''x'')) [0..<MAX_RETRIES] empty_world"
    using th[THEN conjunct2, THEN conjunct2, THEN conjunct2, THEN conjunct2, THEN conjunct2, THEN conjunct1]
      px by simp
  have c7: "download_file_v1 ?T ''u'' ''x'' empty_world
       = retry_v1 ?T ''u'' ''x'' [0..<MAX_RETRIES_v1] empty_world"
    using th[THEN conjunct2, THEN conjunct2, THEN conjunct2, THEN conjunct2, THEN conjunct2, THEN conjunct2]
      px by simp
  have d: "dirname (normpath ''x'') = [] \<or> makedirs_ok ?T (dirname (normpath ''x''))"
     "dirname ''x'' = [] \<or> makedirs_ok ?T (dirname ''x'')" by (simp_all add: px)
  from t t1 o d c1 c2 c3 c4 c5 c6 c7 show ?thesis by (intro conjI allI) simp_all
qed

text \<open>
  C8 as stated fails in 1model.py: after timeouts its sleeps are 10, 10, 10, 10, not the
  delay times the attempt number; and when the body of an answer breaks off with an
  exception of \<^verbatim>\<open>requests\<close> that is neither \<^verbatim>\<open>Timeout\<close> nor \<^verbatim>\<open>ConnectionError\<close>, the call
  returns False after one request.
\<close>

theorem constant_delay_counterexample:
  "transient (on_get (env_always (Raises Timeout)) ''u'' 0)
   \<and> fst (download_file_v1 (env_always (Raises Timeout)) ''u'' ''x'' empty_world) = False
   \<and> slept (snd (download_file_v1 (env_always (Raises Timeout)) ''u'' ''x'' empty_world))
       = [10, 10, 10, 10]
   \<and> slept (snd (download_file_v1 (env_always (Raises Timeout)) ''u'' ''x'' empty_world))
       \<noteq> [10 * 1, 10 * 2, 10 * 3, 10 * 4]
   \<and> on_get (env_always (Response 200 [''ab''] (Some RequestException))) ''u'' 0
       = Response 200 [''ab''] (Some RequestException)
   \<and> fst (download_file_v1 (env_always (Response 200 [''ab''] (Some RequestException)))
            ''u'' ''x'' empty_world) = False
   \<and> requests (snd (download_file_v1 (env_always (Response 200 [''ab''] (Some RequestException)))
            ''u'' ''x'' empty_world)) = [GET ''u'']
   \<and> slept (snd (download_file_v1 (env_always (Response 200 [''ab''] (Some RequestException)))
            ''u'' ''x'' empty_world)) = []"
proof -
  have px: "dirname ''x'' = []" by code_simp
  have a: "transient (on_get (env_always (Raises Timeout)) ''u'' 0)"
    by (simp add: transient_def net_error_def)
  have b: "download_file_v1 (env_always (Raises Timeout)) ''u'' ''x'' empty_world
      = (False, empty_world\<lparr>requests := [GET ''u'', GET ''u'', GET ''u'', GET ''u'', GET ''u''],
                             slept := [10, 10, 10, 10]\<rparr>)"
    by (simp add: download_file_v1_def px get_attempt_v1_def handle_v1_def send_def sleep_def
        empty_world_def MAX_RETRIES_v1_def RETRY_DELAY_v1_def upt_rec Let_def)
  have c: "fst (download_file_v1 (env_always (Response 200 [''ab''] (Some RequestException)))
            ''u'' ''x'' empty_world) = False
   \<and> requests (snd (download_file_v1 (env_always (Response 200 [''ab''] (Some RequestException)))
            ''u'' ''x'' empty_world)) = [GET ''u'']
   \<and> slept (snd (download_file_v1 (env_always (Response 200 [''ab''] (Some RequestException)))
            ''u'' ''x'' empty_world)) = []"
    by (simp add: download_file_v1_def px get_attempt_v1_def store_v1_def handle_v1_def
        open_wb_def write_to_def set_files_def send_def sleep_def empty_world_def
        MAX_RETRIES_v1_def RETRY_DELAY_v1_def upt_rec Let_def)
  from a b c show ?thesis by simp
qed

section \<open>The asset extractor: claim C7\<close>

lemma fold_walk_acc:
  assumes "\<And>x found. x \<in> set xs \<Longrightarrow> f x found = found \<union> g x"
  shows "fold f xs found = found \<union> (\<Union>x \<in> set xs. g x)"
  using assms by (induction xs arbitrary: found) auto

lemma walk_eq: "walk d found = found \<union> {s \<in> string_leaves d. is_asset s}"
proof (induction d arbitrary: found)
  case (JArr xs)
  have "fold walk xs found = found \<union> (\<Union>x \<in> set xs. {s \<in> string_leaves x. is_asset s})"
    by (rule fold_walk_acc) (simp add: JArr.IH)
  then show ?case by auto
next
  case (JObj kvs)
  have "fold (\<lambda>kv. walk (snd kv)) kvs found
        = found \<union> (\<Union>kv \<in> set kvs. {s \<in> string_leaves (snd kv). is_asset s})"
  proof (rule fold_walk_acc)
    fix kv found' assume "kv \<in> set kvs"
    moreover obtain k v where "kv = (k, v)" by (cases kv)
    ultimately show "walk (snd kv) found' = found' \<union> {s \<in> string_leaves (snd kv). is_asset s}"
      using JObj.IH[of kv v found'] by simp
  qed
  then show ?case by auto
qed auto

lemma endswith_suffix: "endswith s e = suffix e s"
proof
  assume "endswith s e"
  then have "s = take (length s - length e) s @ e"
    unfolding endswith_def by (metis append_take_drop_id)
  then show "suffix e s" by (metis suffixI)
next
  assume "suffix e s"
  then obtain p where "s = p @ e" by (auto simp: suffix_def)
  then show "endswith s e" by (simp add: endswith_def)
qed

lemma is_asset_suffix: "is_asset s = has_asset_suffix s"
  by (simp add: is_asset_def has_asset_suffix_def exts_def endswith_suffix)

text \<open>
  Claim C7. \<^verbatim>\<open>extract_assets\<close> returns exactly the set of the string leaves of the
  document whose lower-case form ends with one of the six suffixes. A descriptor that
  lists the texture \<^verbatim>\<open>t\<close> twice gives one reference and so one task (unless \<^verbatim>\<open>t\<close> has the
  file name of the descriptor itself, which is passed over); in 1model.py the set of
  \<^verbatim>\<open>asset_paths\<close> of such a descriptor is \<^verbatim>\<open>{t}\<close> as well, and there the missing sections
  raise nothing. A document without any section gives the empty set.
\<close>

theorem extract_assets_exact:
  "extract_assets d = {s \<in> string_leaves d. has_asset_suffix s}
   \<and> (has_asset_suffix t \<and> basename t \<noteq> basename local_path \<longrightarrow>
        submitted local_path
          (JObj [(''FileReferences'', JObj [(''Textures'', JArr [JStr t, JStr t])])]) = {t}
        \<and> card (submitted local_path
          (JObj [(''FileReferences'', JObj [(''Textures'', JArr [JStr t, JStr t])])])) = 1)
   \<and> asset_refs (JObj [(''Textures'', JArr [JStr t, JStr t])]) = Some {t}
   \<and> extract_assets (JObj []) = {}
   \<and> extract_assets (JObj [(''FileReferences'', JObj [])]) = {}"
proof -
  have e: "\<And>d. extract_assets d = {s \<in> string_leaves d. has_asset_suffix s}"
    by (simp add: extract_assets_def walk_eq is_asset_suffix)
  have "asset_refs (JObj [(''Textures'', JArr [JStr t, JStr t])]) = Some {t}"
    by (simp add: asset_refs_def asset_paths_def)
  moreover have "has_asset_suffix t \<and> basename t \<noteq> basename local_path \<longrightarrow>
        submitted local_path
          (JObj [(''FileReferences'', JObj [(''Textures'', JArr [JStr t, JStr t])])]) = {t}"
    by (auto simp: e submitted_def)
  moreover have "extract_assets (JObj []) = {}"
    "extract_assets (JObj [(''FileReferences'', JObj [])]) = {}"
    by (simp_all add: e)
  ultimately show ?thesis using e[of d] by simp
qed

text \<open>The statement of C7 at the texture \<^verbatim>\<open>tex/00.png\<close> of the spec's scenario.\<close>

theorem extract_assets_exact_witness:
  "has_asset_suffix ''tex/00.png'' \<and> basename ''tex/00.png'' \<noteq> basename ''m/a.model3.json''
   \<and> submitted ''m/a.model3.json''
        (JObj [(''FileReferences'', JObj [(''Textures'', JArr [JStr ''tex/00.png'', JStr ''tex/00.png''])])])
      = {''tex/00.png''}
   \<and> card (submitted ''m/a.model3.json''
        (JObj [(''FileReferences'', JObj [(''Textures'', JArr [JStr ''tex/00.png'', JStr ''tex/00.png''])])]))
      = 1"
proof -
  have a: "has_asset_suffix ''tex/00.png''"
    using is_asset_suffix[of "''tex/00.png''"] by code_simp
  have b: "basename ''tex/00.png'' \<noteq> basename ''m/a.model3.json''" by code_simp
  from extract_assets_exact[of _ "''tex/00.png''" "''m/a.model3.json''"] a b show ?thesis by blast
qed

section \<open>The path sanitizer: claim C1\<close>











































section \<open>The manifest resolver: claim C6\<close>



lemma take_le_takeWhile:
  "n \<le> length (takeWhile P s) \<Longrightarrow> list_all P (take n s)"
proof (induction s arbitrary: n)
  case Nil
  then show ?case by simp
next
  case (Cons c cs)
  then show ?case by (cases n) (auto split: if_splits)
qed

lemma list_all_le_takeWhile:
  "list_all P m \<Longrightarrow> length m \<le> length (takeWhile P (m @ t))"
  by (induction m) auto

lemma takeWhile_length_iff:
  "(\<exists>n \<le> length (takeWhile P s). m = take n s \<and> rest = drop n s)
   \<longleftrightarrow> (s = m @ rest \<and> list_all P m)"
proof
  assume "\<exists>n \<le> length (takeWhile P s). m = take n s \<and> rest = drop n s"
  then obtain n where n: "n \<le> length (takeWhile P s)" "m = take n s" "rest = drop n s" by blast
  then show "s = m @ rest \<and> list_all P m" by (simp add: take_le_takeWhile)
next
  assume a: "s = m @ rest \<and> list_all P m"
  then have "length m \<le> length (takeWhile P s)" using list_all_le_takeWhile[of P m rest] by simp
  moreover have "m = take (length m) s" "rest = drop (length m) s" using a by simp_all
  ultimately show "\<exists>n \<le> length (takeWhile P s). m = take n s \<and> rest = drop n s" by blast
qed

lemma upto_Suc_iff: "(\<exists>n \<in> set [0..<Suc k]. P n) \<longleftrightarrow> (\<exists>n \<le> k. P n)"
  by (simp only: set_upt Bex_def atLeastLessThan_iff less_Suc_eq_le) simp

lemma from1_Suc_iff: "(\<exists>n \<in> set (rev [1..<Suc k]). P n) \<longleftrightarrow> (\<exists>n \<le> k. n \<noteq> 0 \<and> P n)"
  by (simp only: set_rev set_upt Bex_def atLeastLessThan_iff less_Suc_eq_le) (auto simp: Suc_le_eq)

lemma in_map_iff: "y \<in> set (map f xs) \<longleftrightarrow> (\<exists>x \<in> set xs. y = f x)"
  by auto

lemma ways_StarLazy_iff:
  "(gs, m, rest) \<in> set (ways (StarLazy a) s)
   \<longleftrightarrow> gs = [] \<and> s = m @ rest \<and> list_all (atom_ok a) m"
proof -
  have "(gs, m, rest) \<in> set (ways (StarLazy a) s)
        \<longleftrightarrow> (\<exists>n \<le> length (takeWhile (atom_ok a) s). (gs, m, rest) = ([], take n s, drop n s))"
    unfolding ways.simps in_map_iff upto_Suc_iff ..
  also have "\<dots> \<longleftrightarrow> gs = []
      \<and> (\<exists>n \<le> length (takeWhile (atom_ok a) s). m = take n s \<and> rest = drop n s)"
    by blast
  finally show ?thesis unfolding takeWhile_length_iff .
qed

lemma ways_PlusGreedy_iff:
  "(gs, m, rest) \<in> set (ways (PlusGreedy a) s)
   \<longleftrightarrow> gs = [] \<and> m \<noteq> [] \<and> s = m @ rest \<and> list_all (atom_ok a) m"
proof -
  have "(gs, m, rest) \<in> set (ways (PlusGreedy a) s)
        \<longleftrightarrow> (\<exists>n \<le> length (takeWhile (atom_ok a) s).
               n \<noteq> 0 \<and> (gs, m, rest) = ([], take n s, drop n s))"
    unfolding ways.simps in_map_iff from1_Suc_iff ..
  also have "\<dots> \<longleftrightarrow> gs = [] \<and> (\<exists>n \<le> length (takeWhile (atom_ok a) s).
                              n \<noteq> 0 \<and> m = take n s \<and> rest = drop n s)"
    by blast
  also have "\<dots> \<longleftrightarrow> gs = [] \<and> m \<noteq> []
      \<and> (\<exists>n \<le> length (takeWhile (atom_ok a) s). m = take n s \<and> rest = drop n s)"
  proof -
    have "\<And>n. n \<le> length (takeWhile (atom_ok a) s) \<Longrightarrow> (take n s \<noteq> []) = (n \<noteq> 0)"
    proof -
      fix n assume "n \<le> length (takeWhile (atom_ok a) s)"
      moreover have "length (takeWhile (atom_ok a) s) \<le> length s" by (rule length_takeWhile_le)
      ultimately show "(take n s \<noteq> []) = (n \<noteq> 0)" by (cases s) auto
    qed
    then show ?thesis by metis
  qed
  finally show ?thesis unfolding takeWhile_length_iff by blast
qed

lemma ways_Capture_iff:
  "(gs, m, rest) \<in> set (ways (Capture n r) s)
   \<longleftrightarrow> (\<exists>gs'. (gs', m, rest) \<in> set (ways r s) \<and> gs = (n, m) # gs')"
proof -
  have "(gs, m, rest) \<in> set (ways (Capture n r) s)
        \<longleftrightarrow> (\<exists>x \<in> set (ways r s). (gs, m, rest) = (case x of (gs', m', rest') \<Rightarrow> ((n, m') # gs', m', rest')))"
    unfolding ways.simps in_map_iff ..
  also have "\<dots> \<longleftrightarrow> (\<exists>gs' m' rest'. (gs', m', rest') \<in> set (ways r s)
                          \<and> (gs, m, rest) = ((n, m') # gs', m', rest'))"
    by (simp add: Bex_def)
  also have "\<dots> \<longleftrightarrow> (\<exists>gs'. (gs', m, rest) \<in> set (ways r s) \<and> gs = (n, m) # gs')"
    by blast
  finally show ?thesis .
qed

lemma ways_Concat_iff:
  "(gs, m, rest) \<in> set (ways (Concat r1 r2) s)
   \<longleftrightarrow> (\<exists>gs1 m1 rest1 gs2 m2. (gs1, m1, rest1) \<in> set (ways r1 s)
          \<and> (gs2, m2, rest) \<in> set (ways r2 rest1) \<and> gs = gs1 @ gs2 \<and> m = m1 @ m2)"
proof -
  have "(gs, m, rest) \<in> set (ways (Concat r1 r2) s)
        \<longleftrightarrow> (\<exists>x \<in> set (ways r1 s). (gs, m, rest) \<in> set (case x of (gs1, m1, rest1) \<Rightarrow>
                 map (\<lambda>(gs2, m2, rest2). (gs1 @ gs2, m1 @ m2, rest2)) (ways r2 rest1)))"
    unfolding ways.simps set_concat set_map by blast
  also have "\<dots> \<longleftrightarrow> (\<exists>gs1 m1 rest1. (gs1, m1, rest1) \<in> set (ways r1 s)
       \<and> (gs, m, rest) \<in> set (map (\<lambda>(gs2, m2, rest2). (gs1 @ gs2, m1 @ m2, rest2)) (ways r2 rest1)))"
    by (simp add: Bex_def)
  also have "\<dots> \<longleftrightarrow> (\<exists>gs1 m1 rest1. (gs1, m1, rest1) \<in> set (ways r1 s)
       \<and> (\<exists>gs2 m2 rest2. (gs2, m2, rest2) \<in> set (ways r2 rest1)
             \<and> (gs, m, rest) = (gs1 @ gs2, m1 @ m2, rest2)))"
    unfolding in_map_iff by (simp add: Bex_def)
  also have "\<dots> \<longleftrightarrow> (\<exists>gs1 m1 rest1 gs2 m2. (gs1, m1, rest1) \<in> set (ways r1 s)
          \<and> (gs2, m2, rest) \<in> set (ways r2 rest1) \<and> gs = gs1 @ gs2 \<and> m = m1 @ m2)"
    by blast
  finally show ?thesis .
qed

lemma ways_Optional_iff:
  "(gs, m, rest) \<in> set (ways (Optional r) s)
   \<longleftrightarrow> (gs, m, rest) \<in> set (ways r s) \<or> (gs = [] \<and> m = [] \<and> rest = s)"
  by auto

lemma ways_Lit_iff:
  "(gs, m, rest) \<in> set (ways (Lit l) s) \<longleftrightarrow> gs = [] \<and> m = l \<and> s = l @ rest"
  by (auto simp: prefix_def)

lemma ways_One_iff:
  "(gs, m, rest) \<in> set (ways (One a) s) \<longleftrightarrow> (\<exists>c. gs = [] \<and> m = [c] \<and> s = c # rest \<and> atom_ok a c)"
  by (auto split: list.splits)

lemmas ways_iff = ways_Lit_iff ways_One_iff ways_StarLazy_iff ways_PlusGreedy_iff
  ways_Optional_iff ways_Capture_iff ways_Concat_iff





























end
